theory Spec2Isabelle
  imports Complex_Main "HOL-Library.Word" "HOL-Library.Signed_Division"
begin

section \<open>climate.c: per-state aggregation of climate records\<close>

text \<open>
  A shallow embedding of \<^verbatim>\<open>src/climate.c\<close>. Conventions of the model:
  \<^item> a C \<^verbatim>\<open>double\<close> is a \<open>real\<close>: comparisons, sums and the conversion formula are
    those of the code, IEEE rounding, NaN and the infinities are not represented;
  \<^item> \<^verbatim>\<open>unsigned long long num_records\<close> is a \<open>64 word\<close> (increment wraps);
  \<^item> the \<^verbatim>\<open>int\<close> counters are \<open>int\<close>s; incrementing \<^verbatim>\<open>INT_MAX\<close> is undefined
    behaviour and is a fault of the model;
  \<^item> a C string is a \<open>string\<close> (no NUL inside), a possibly-NULL \<^verbatim>\<open>char *\<close> is a
    \<open>string option\<close>, a possibly-NULL struct pointer is a \<open>climate_info option\<close>;
  \<^item> every undefined behaviour of the C code (NULL dereference, access past the end
    of an array, signed overflow) is a value \<open>Inl fault\<close>;
  \<^item> \<^verbatim>\<open>atof\<close>, \<^verbatim>\<open>atol\<close> and \<^verbatim>\<open>ctime\<close> belong to the C library, not to the
    repository: the functions take them as a parameter of type \<open>libc\<close>;
  \<^item> \<^verbatim>\<open>atol\<close> returns a \<^verbatim>\<open>long\<close>, here an \<open>int\<close>; \<^verbatim>\<open>currentTS\<close> is its quotient by
    1000, truncated towards zero (\<open>sdiv\<close>), and \<^verbatim>\<open>ctime\<close> reads the same 64 bits back
    as a \<^verbatim>\<open>time_t\<close>;
  \<^item> \<^verbatim>\<open>malloc\<close> is assumed to succeed;
  \<^item> what is printed is a list of values of type \<open>out\<close>, before formatting; a run that
    faults has no output in the model;
  \<^item> the parameter \<^verbatim>\<open>num_states\<close> of \<^verbatim>\<open>analyze_file\<close>, which the code does not use, is
    left out.
\<close>

subsection \<open>Data\<close>

datatype fault = NullPointer | OutOfBounds | BufferOverflow | SignedOverflow

text \<open>\<^verbatim>\<open>#define NUM_STATES 50\<close>\<close>

definition NUM_STATES :: nat where
  "NUM_STATES = 50"

text \<open>
  \<^verbatim>\<open>struct climate_info\<close>. The two date buffers are not initialised when the struct is
  allocated: \<open>None\<close> stands for their indeterminate content.
\<close>

record climate_info =
  code :: string
  num_records :: "64 word"
  totalTemp :: real
  totalHumidity :: real
  maxTemp :: real
  maxTempDate :: "string option"
  minTemp :: real
  minTempDate :: "string option"
  lightningStrikeCount :: int
  snowCoverCount :: int
  totalCloudCover :: real

text \<open>\<^verbatim>\<open>struct climate_info *states[NUM_STATES]\<close>: \<open>None\<close> is a NULL pointer.\<close>

type_synonym states = "climate_info option list"

text \<open>The C library functions the analysis calls.\<close>

record libc =
  atof :: "string \<Rightarrow> real"
  atol :: "string \<Rightarrow> int"
  ctime :: "int \<Rightarrow> string option"

definition INT_MAX :: int where
  "INT_MAX = 2147483647"

subsection \<open>Faults\<close>

definition bind_e :: "fault + 'a \<Rightarrow> ('a \<Rightarrow> fault + 'b) \<Rightarrow> fault + 'b" where
  "bind_e m f = (case m of Inl e \<Rightarrow> Inl e | Inr x \<Rightarrow> f x)"

text \<open>Reading through a pointer: NULL is a fault.\<close>

definition deref :: "'a option \<Rightarrow> fault + 'a" where
  "deref p = (case p of None \<Rightarrow> Inl NullPointer | Some x \<Rightarrow> Inr x)"

text \<open>\<^verbatim>\<open>strcpy\<close> into a \<^verbatim>\<open>char[n]\<close>: the source and its terminating NUL must fit.\<close>

definition strcpy :: "nat \<Rightarrow> string option \<Rightarrow> fault + string" where
  "strcpy n src =
     bind_e (deref src) (\<lambda>s. if n \<le> length s then Inl BufferOverflow else Inr s)"

text \<open>\<^verbatim>\<open>n++\<close> on an \<^verbatim>\<open>int\<close>.\<close>

definition incr_int :: "int \<Rightarrow> fault + int" where
  "incr_int n = (if n = INT_MAX then Inl SignedOverflow else Inr (n + 1))"

subsection \<open>Reading and splitting lines\<close>

definition delim :: string where
  "delim = [CHR 0x09]"

text \<open>
  \<^verbatim>\<open>strtok\<close>, with its saved position made explicit: the argument is the text from the
  saved position on, the result is the token (NULL when only delimiters are left) and
  the new saved position. Leading delimiters are skipped, so an empty field is never a
  token.
\<close>

definition strtok :: "string \<Rightarrow> string \<Rightarrow> string option \<times> string" where
  "strtok s d =
     (let s1 = dropWhile (\<lambda>c. c \<in> set d) s in
      if s1 = [] then (None, [])
      else (Some (takeWhile (\<lambda>c. c \<notin> set d) s1),
            drop 1 (dropWhile (\<lambda>c. c \<notin> set d) s1)))"

text \<open>
  \<^verbatim>\<open>fgets(line, n, file)\<close>: at most \<open>n - 1\<close> characters, stopping after a newline.
  The stream is the text not yet read; \<open>None\<close> is the NULL returned at end of file.
\<close>

fun read_line :: "nat \<Rightarrow> string \<Rightarrow> string" where
  "read_line 0 s = []"
| "read_line (Suc k) [] = []"
| "read_line (Suc k) (c # cs) = (if c = CHR 0x0A then [c] else c # read_line k cs)"

definition fgets :: "nat \<Rightarrow> string \<Rightarrow> (string \<times> string) option" where
  "fgets n file =
     (if file = [] then None
      else let line = read_line (n - 1) file in Some (line, drop (length line) file))"

definition line_sz :: nat where
  "line_sz = 100"

subsection \<open>indexOfState\<close>

text \<open>
  The scan of \<^verbatim>\<open>indexOfState\<close>, from index \<open>i\<close>. Reading \<^verbatim>\<open>states[i]\<close> with \<open>i\<close> past
  the end of the array is a fault, and so is \<^verbatim>\<open>strcmp\<close> with a NULL argument.
\<close>

function indexOfState_from :: "nat \<Rightarrow> states \<Rightarrow> string option \<Rightarrow> fault + int" where
  "indexOfState_from i states stateCode =
     (if length states \<le> i then Inl OutOfBounds
      else case states ! i of
             None \<Rightarrow> Inr (if i = 0 then - 50 else - int i)
           | Some ci \<Rightarrow>
               (case stateCode of
                  None \<Rightarrow> Inl NullPointer
                | Some s \<Rightarrow>
                    if code ci = s then Inr (int i)
                    else indexOfState_from (Suc i) states stateCode))"
  by pat_completeness auto
termination
  by (relation "measure (\<lambda>(i, states, stateCode). length states - i)") auto

declare indexOfState_from.simps [simp del]

definition indexOfState :: "states \<Rightarrow> string option \<Rightarrow> fault + int" where
  "indexOfState states stateCode = indexOfState_from 0 states stateCode"

subsection \<open>analyze_file\<close>

text \<open>Lines 179 to 188: the base values of a new struct.\<close>

definition base_values :: "string \<Rightarrow> climate_info" where
  "base_values c =
     \<lparr>code = c, num_records = 0, totalTemp = 0, totalHumidity = 0,
      maxTemp = - 1000, maxTempDate = None,
      minTemp = 1000, minTempDate = None,
      lightningStrikeCount = 0, snowCoverCount = 0, totalCloudCover = 0\<rparr>"

text \<open>
  Lines 175 to 188: the struct of a state seen for the first time; the token is copied
  into the three bytes of \<^verbatim>\<open>code\<close>.
\<close>

definition new_climate_info :: "string option \<Rightarrow> fault + climate_info" where
  "new_climate_info token = bind_e (strcpy 3 token) (\<lambda>c. Inr (base_values c))"

text \<open>
  Lines 169 to 198: the index of the state's struct, after creating and storing it
  when \<^verbatim>\<open>indexOfState\<close> returned a negative number.
\<close>

definition locate :: "states \<Rightarrow> string option \<Rightarrow> fault + (nat \<times> states)" where
  "locate states token =
     bind_e (indexOfState states token) (\<lambda>index.
       if index < 0 then
         bind_e (new_climate_info token) (\<lambda>ci.
           let index' = (if index = - 50 then 0 else - index) in
           if int (length states) \<le> index' then Inl OutOfBounds
           else Inr (nat index', states[nat index' := Some ci]))
       else if int (length states) \<le> index then Inl OutOfBounds
       else Inr (nat index, states))"

text \<open>\<^verbatim>\<open>*token == '1'\<close>: the first character of the token (NUL when it is empty).\<close>

definition first_is_1 :: "string \<Rightarrow> bool" where
  "first_is_1 token = (case token of [] \<Rightarrow> False | c # _ \<Rightarrow> c = CHR ''1'')"

text \<open>\<^verbatim>\<open>if (*token == '1') { n++; }\<close> (lines 219 to 221 and 229 to 231).\<close>

definition count_flag :: "string \<Rightarrow> int \<Rightarrow> fault + int" where
  "count_flag token n = (if first_is_1 token then incr_int n else Inr n)"

text \<open>
  Lines 240 to 251: the two extrema and their dates. \<^verbatim>\<open>ctime\<close> is called, and its
  result copied into the 27 bytes of the date, only when the comparison holds.
\<close>

definition update_extrema :: "libc \<Rightarrow> real \<Rightarrow> int \<Rightarrow> climate_info \<Rightarrow> fault + climate_info" where
  "update_extrema L temp currentTS ci =
     bind_e (if temp > maxTemp ci then
               bind_e (strcpy 27 (ctime L currentTS)) (\<lambda>d.
                 Inr (ci\<lparr>maxTemp := temp, maxTempDate := Some d\<rparr>))
             else Inr ci) (\<lambda>ci.
     if temp < minTemp ci then
       bind_e (strcpy 27 (ctime L currentTS)) (\<lambda>d.
         Inr (ci\<lparr>minTemp := temp, minTempDate := Some d\<rparr>))
     else Inr ci)"

text \<open>
  Lines 203 to 251: one record folded into the struct \<open>ci\<close>; \<open>s1\<close> is the text of the
  line after the first token. The third and the eighth token are not read, so a NULL
  there is no fault by itself.
\<close>

definition update_info :: "libc \<Rightarrow> climate_info \<Rightarrow> string \<Rightarrow> fault + climate_info" where
  "update_info L ci s1 =
     (let ci = ci\<lparr>num_records := num_records ci + 1\<rparr>;
          (token, s2) = strtok s1 delim in
      bind_e (deref token) (\<lambda>t2.
      let currentTS = atol L t2 sdiv 1000;
          (token, s3) = strtok s2 delim;
          (token, s4) = strtok s3 delim in
      bind_e (deref token) (\<lambda>t4.
      let ci = ci\<lparr>totalHumidity := totalHumidity ci + atof L t4\<rparr>;
          (token, s5) = strtok s4 delim in
      bind_e (deref token) (\<lambda>t5.
      bind_e (count_flag t5 (snowCoverCount ci)) (\<lambda>n.
      let ci = ci\<lparr>snowCoverCount := n\<rparr>;
          (token, s6) = strtok s5 delim in
      bind_e (deref token) (\<lambda>t6.
      let ci = ci\<lparr>totalCloudCover := totalCloudCover ci + atof L t6\<rparr>;
          (token, s7) = strtok s6 delim in
      bind_e (deref token) (\<lambda>t7.
      bind_e (count_flag t7 (lightningStrikeCount ci)) (\<lambda>n.
      let ci = ci\<lparr>lightningStrikeCount := n\<rparr>;
          (token, s8) = strtok s7 delim;
          (token, s9) = strtok s8 delim in
      bind_e (deref token) (\<lambda>t9.
      let temp = atof L t9 * 1.8 - 459.67;
          ci = ci\<lparr>totalTemp := totalTemp ci + temp\<rparr> in
      update_extrema L temp currentTS ci)))))))))"

text \<open>The body of the \<^verbatim>\<open>while\<close> loop of \<^verbatim>\<open>analyze_file\<close>, for one line.\<close>

definition process_line :: "libc \<Rightarrow> states \<Rightarrow> string \<Rightarrow> fault + states" where
  "process_line L states line =
     (let (token, s1) = strtok line delim in
      bind_e (locate states token) (\<lambda>(index, states).
      bind_e (deref (states ! index)) (\<lambda>ci.
      bind_e (update_info L ci s1) (\<lambda>ci.
      Inr (states[index := Some ci])))))"

function analyze_file :: "libc \<Rightarrow> states \<Rightarrow> string \<Rightarrow> fault + states" where
  "analyze_file L states file =
     (case fgets line_sz file of
        None \<Rightarrow> Inr states
      | Some (line, rest) \<Rightarrow>
          (case process_line L states line of
             Inl e \<Rightarrow> Inl e
           | Inr states' \<Rightarrow> analyze_file L states' rest))"
  by pat_completeness auto
termination
proof (relation "measure (\<lambda>(L, states, f). length f)")
  fix L :: libc and states :: states and f :: string
    and x2 :: "string \<times> string" and line rest :: string and states' :: states
  assume "fgets line_sz f = Some x2" and "(line, rest) = x2"
  then have r: "rest = drop (length (read_line 99 f)) f" and "f \<noteq> []"
    by (auto simp: fgets_def line_sz_def Let_def split: if_splits)
  then obtain c cs where f: "f = c # cs"
    by (cases f) auto
  have "read_line 99 (c # cs) \<noteq> []"
    by (simp add: numeral_eq_Suc)
  with r f show "((L, states', rest), (L, states, f)) \<in> measure (\<lambda>(L, states, f). length f)"
    by simp
qed simp

declare analyze_file.simps [simp del]

subsection \<open>print_report and main\<close>

text \<open>
  A \<^verbatim>\<open>double\<close> divided by the record count. Dividing by zero does not trap: the C
  result is a NaN or an infinity, which the reals of the model lack; \<open>None\<close> stands for
  that result.
\<close>

definition fdiv :: "real \<Rightarrow> 64 word \<Rightarrow> real option" where
  "fdiv x n = (if n = 0 then None else Some (x / real (unat n)))"

text \<open>What \<^verbatim>\<open>print_report\<close> prints for one state, before formatting.\<close>

record report_block =
  rb_code :: string
  rb_num_records :: "64 word"
  rb_avgHumidity :: "real option"
  rb_avgTemp :: "real option"
  rb_maxTemp :: real
  rb_maxTempDate :: "string option"
  rb_minTemp :: real
  rb_minTempDate :: "string option"
  rb_lightningStrikes :: int
  rb_snowCover :: int
  rb_avgCloudCover :: "real option"

text \<open>Lines 269 to 279.\<close>

definition block_of :: "climate_info \<Rightarrow> report_block" where
  "block_of info =
     \<lparr>rb_code = code info,
      rb_num_records = num_records info,
      rb_avgHumidity = fdiv (totalHumidity info) (num_records info),
      rb_avgTemp = fdiv (totalTemp info) (num_records info),
      rb_maxTemp = maxTemp info,
      rb_maxTempDate = maxTempDate info,
      rb_minTemp = minTemp info,
      rb_minTempDate = minTempDate info,
      rb_lightningStrikes = lightningStrikeCount info,
      rb_snowCover = snowCoverCount info,
      rb_avgCloudCover = fdiv (totalCloudCover info) (num_records info)\<rparr>"

text \<open>
  \<^verbatim>\<open>print_report\<close>: the codes of the non-NULL entries among the first \<open>num_states\<close>,
  then one block for each of them, in the order of the array.
\<close>

definition print_report :: "states \<Rightarrow> nat \<Rightarrow> fault + string list \<times> report_block list" where
  "print_report states num_states =
     (if length states < num_states then Inl OutOfBounds
      else let infos = List.map_filter id (take num_states states)
           in Inr (map code infos, map block_of infos))"

datatype out =
    Usage "string option"
  | OpeningFile string
  | ErrorFile int
  | Report "string list" "report_block list"

text \<open>
  The \<^verbatim>\<open>for\<close> loop of \<^verbatim>\<open>main\<close> over \<^verbatim>\<open>argv[i]\<close>, \<^verbatim>\<open>argv[i + 1]\<close>, ...; \<open>fopen\<close> gives the
  content of a file that can be opened for reading, and NULL for any other name.
\<close>

fun main_loop ::
  "libc \<Rightarrow> (string \<Rightarrow> string option) \<Rightarrow> int \<Rightarrow> string list \<Rightarrow> states \<Rightarrow> out list
     \<Rightarrow> fault + states \<times> out list" where
  "main_loop L fopen i [] states out = Inr (states, out)"
| "main_loop L fopen i (arg # args) states out =
     (case fopen arg of
        Some file \<Rightarrow>
          bind_e (analyze_file L states file) (\<lambda>states'.
            main_loop L fopen (i + 1) args states' (out @ [OpeningFile arg]))
      | None \<Rightarrow>
          main_loop L fopen (i + 1) args states (out @ [OpeningFile arg, ErrorFile i]))"

definition EXIT_FAILURE :: int where
  "EXIT_FAILURE = 1"

definition main :: "libc \<Rightarrow> (string \<Rightarrow> string option) \<Rightarrow> string list \<Rightarrow> fault + int \<times> out list" where
  "main L fopen argv =
     (if length argv < 2 then
        Inr (EXIT_FAILURE, [Usage (case argv of [] \<Rightarrow> None | a # _ \<Rightarrow> Some a)])
      else
        bind_e (main_loop L fopen 1 (tl argv) (replicate NUM_STATES None) []) (\<lambda>(states, out).
        bind_e (print_report states NUM_STATES) (\<lambda>(codes, blocks).
        Inr (0, out @ [Report codes blocks]))))"

subsection \<open>The records of an input\<close>

text \<open>The tokens \<^verbatim>\<open>strtok\<close> yields on a line, in order.\<close>

function tokens :: "string \<Rightarrow> string list" where
  "tokens s = (case strtok s delim of (None, r) \<Rightarrow> [] | (Some t, r) \<Rightarrow> t # tokens r)"
  by pat_completeness auto
termination
proof (relation "measure length")
  fix s :: string and x :: "string option" and r t :: string
  assume "(x, r) = strtok s delim" and "x = Some t"
  then have tok: "strtok s delim = (Some t, r)"
    by simp
  let ?s1 = "dropWhile (\<lambda>c. c \<in> set delim) s"
  let ?s2 = "dropWhile (\<lambda>c. c \<notin> set delim) ?s1"
  from tok have ne: "?s1 \<noteq> []" and r: "r = drop 1 ?s2"
    by (auto simp: strtok_def Let_def split: if_splits)
  have a: "length ?s2 \<le> length ?s1"
    by (rule length_dropWhile_le)
  have b: "length ?s1 \<le> length s"
    by (rule length_dropWhile_le)
  have c: "0 < length ?s1"
    using ne by simp
  have "length (drop 1 ?s2) < length ?s1"
    using a c unfolding length_drop by linarith
  with b show "(r, s) \<in> measure length"
    unfolding r by simp
qed simp

declare tokens.simps [simp del]

text \<open>The lines \<^verbatim>\<open>fgets\<close> yields on a file, in order.\<close>

function lines_of :: "string \<Rightarrow> string list" where
  "lines_of file =
     (case fgets line_sz file of None \<Rightarrow> [] | Some (line, rest) \<Rightarrow> line # lines_of rest)"
  by pat_completeness auto
termination
proof (relation "measure length")
  fix f :: string and x2 :: "string \<times> string" and line rest :: string
  assume "fgets line_sz f = Some x2" and "(line, rest) = x2"
  then have r: "rest = drop (length (read_line 99 f)) f" and "f \<noteq> []"
    by (auto simp: fgets_def line_sz_def Let_def split: if_splits)
  then obtain c cs where f: "f = c # cs"
    by (cases f) auto
  have "read_line 99 (c # cs) \<noteq> []"
    by (simp add: numeral_eq_Suc)
  with r f show "(rest, f) \<in> measure length"
    by simp
qed simp

declare lines_of.simps [simp del]

text \<open>The lines read during a run of \<^verbatim>\<open>main\<close>: those of the files that open, in order.\<close>

definition input_lines :: "(string \<Rightarrow> string option) \<Rightarrow> string list \<Rightarrow> string list" where
  "input_lines fopen args = concat (map lines_of (List.map_filter fopen args))"

text \<open>
  What \<^verbatim>\<open>analyze_file\<close> reads in a line: the state code is the first token, the snow
  flag the fifth, the lightning flag the seventh, the temperature the ninth.
\<close>

definition state_code :: "string \<Rightarrow> string" where
  "state_code line = tokens line ! 0"

definition timestamp :: "libc \<Rightarrow> string \<Rightarrow> int" where
  "timestamp L line = atol L (tokens line ! 1) sdiv 1000"

definition humidity :: "libc \<Rightarrow> string \<Rightarrow> real" where
  "humidity L line = atof L (tokens line ! 3)"

definition snow_flag :: "string \<Rightarrow> bool" where
  "snow_flag line = first_is_1 (tokens line ! 4)"

definition cloud_cover :: "libc \<Rightarrow> string \<Rightarrow> real" where
  "cloud_cover L line = atof L (tokens line ! 5)"

definition lightning_flag :: "string \<Rightarrow> bool" where
  "lightning_flag line = first_is_1 (tokens line ! 6)"

definition kelvin :: "libc \<Rightarrow> string \<Rightarrow> real" where
  "kelvin L line = atof L (tokens line ! 8)"

definition fahrenheit :: "libc \<Rightarrow> string \<Rightarrow> real" where
  "fahrenheit L line = kelvin L line * 1.8 - 459.67"

subsection \<open>Closed forms and invariants\<close>

text \<open>
  The effect of lines 203 to 251 on a struct when they run to their end, as a function
  of the tokens of the line (\<open>update_info_Inr\<close> below proves that \<open>update_info\<close>
  computes it).
\<close>

definition folded :: "libc \<Rightarrow> climate_info \<Rightarrow> string list \<Rightarrow> climate_info" where
  "folded L ci ts =
     (let temp = atof L (ts ! 8) * 1.8 - 459.67;
          date = ctime L (atol L (ts ! 1) sdiv 1000)
      in ci\<lparr>num_records := num_records ci + 1,
             totalHumidity := totalHumidity ci + atof L (ts ! 3),
             snowCoverCount := snowCoverCount ci + (if first_is_1 (ts ! 4) then 1 else 0),
             totalCloudCover := totalCloudCover ci + atof L (ts ! 5),
             lightningStrikeCount := lightningStrikeCount ci + (if first_is_1 (ts ! 6) then 1 else 0),
             totalTemp := totalTemp ci + temp,
             maxTemp := (if temp > maxTemp ci then temp else maxTemp ci),
             maxTempDate := (if temp > maxTemp ci then date else maxTempDate ci),
             minTemp := (if temp < minTemp ci then temp else minTemp ci),
             minTempDate := (if temp < minTemp ci then date else minTempDate ci)\<rparr>)"

text \<open>
  The struct of state \<open>c\<close> after the lines \<open>ls\<close>: the base values, then the lines of
  that state, in order.
\<close>

definition summary :: "libc \<Rightarrow> string \<Rightarrow> string list \<Rightarrow> climate_info" where
  "summary L c ls =
     foldl (\<lambda>ci l. folded L ci (tokens l)) (base_values c) (filter (\<lambda>l. state_code l = c) ls)"

text \<open>
  The array as the program keeps it: \<open>NUM_STATES\<close> pointers, the structs first with no
  NULL between them, no two of them for the same state code.
\<close>

definition wf_states :: "states \<Rightarrow> bool" where
  "wf_states S \<longleftrightarrow>
     length S = NUM_STATES \<and>
     (\<forall>i j. i < j \<and> j < length S \<and> S ! i = None \<longrightarrow> S ! j = None) \<and>
     (\<forall>i j e e'. i < length S \<and> j < length S \<and> S ! i = Some e \<and> S ! j = Some e' \<and>
        code e = code e' \<longrightarrow> i = j)"

text \<open>The array after the lines \<open>ls\<close>: one struct for each state code read, holding its summary.\<close>

definition summarises :: "libc \<Rightarrow> states \<Rightarrow> string list \<Rightarrow> bool" where
  "summarises L S ls \<longleftrightarrow>
     wf_states S \<and>
     (\<forall>e. Some e \<in> set S \<longrightarrow> e = summary L (code e) ls \<and> (\<exists>l \<in> set ls. state_code l = code e)) \<and>
     (\<forall>l \<in> set ls. 9 \<le> length (tokens l) \<and> (\<exists>e. Some e \<in> set S \<and> code e = state_code l))"

text \<open>The converted temperatures of the lines of state \<open>c\<close> among \<open>ls\<close>.\<close>

definition temps_of :: "libc \<Rightarrow> string \<Rightarrow> string list \<Rightarrow> real set" where
  "temps_of L c ls = set (map (fahrenheit L) (filter (\<lambda>l. state_code l = c) ls))"

text \<open>The loop of \<^verbatim>\<open>analyze_file\<close> on the lines it reads.\<close>

fun process_lines :: "libc \<Rightarrow> states \<Rightarrow> string list \<Rightarrow> fault + states" where
  "process_lines L S [] = Inr S"
| "process_lines L S (l # ls) = bind_e (process_line L S l) (\<lambda>S'. process_lines L S' ls)"

text \<open>The array that holds the structs \<open>es\<close>, in order, and NULL after them.\<close>

definition store :: "climate_info list \<Rightarrow> states" where
  "store es = map Some es @ replicate (NUM_STATES - length es) None"

text \<open>
  The notices the loop of \<^verbatim>\<open>main\<close> prints for its arguments: one for each file, and an
  error notice with its index after a file that does not open.
\<close>

fun notices :: "(string \<Rightarrow> string option) \<Rightarrow> int \<Rightarrow> string list \<Rightarrow> out list" where
  "notices fopen i [] = []"
| "notices fopen i (arg # args) =
     (case fopen arg of
        Some f \<Rightarrow> [OpeningFile arg]
      | None \<Rightarrow> [OpeningFile arg, ErrorFile i]) @ notices fopen (i + 1) args"

subsection \<open>A C library for concrete runs\<close>

text \<open>
  For runs on concrete files the parameter \<open>libc\<close> is instantiated with \<open>sample_libc\<close>:
  \<^verbatim>\<open>atof\<close> and \<^verbatim>\<open>atol\<close> on plain decimal numerals (optional sign, digits, optional
  fraction for \<^verbatim>\<open>atof\<close>; they stop at the first other character and give 0 when there
  is no digit, as the C functions do), and \<^verbatim>\<open>ctime\<close> in UTC on the first seconds of
  the epoch, NULL elsewhere.
\<close>

definition is_digit :: "char \<Rightarrow> bool" where
  "is_digit c = (48 \<le> (of_char c :: nat) \<and> (of_char c :: nat) \<le> 57)"

definition digit_val :: "char \<Rightarrow> nat" where
  "digit_val c = of_char c - 48"

fun dec_nat :: "nat \<Rightarrow> string \<Rightarrow> nat" where
  "dec_nat acc [] = acc"
| "dec_nat acc (c # cs) = (if is_digit c then dec_nat (10 * acc + digit_val c) cs else acc)"

fun dec_frac :: "string \<Rightarrow> real" where
  "dec_frac [] = 0"
| "dec_frac (c # cs) = (if is_digit c then (real (digit_val c) + dec_frac cs) / 10 else 0)"

definition dec_unsigned :: "string \<Rightarrow> real" where
  "dec_unsigned s =
     real (dec_nat 0 s) +
     (case dropWhile is_digit s of
        [] \<Rightarrow> 0
      | c # cs \<Rightarrow> if c = CHR ''.'' then dec_frac cs else 0)"

definition sample_atof :: "string \<Rightarrow> real" where
  "sample_atof s =
     (case dropWhile (\<lambda>c. c = CHR '' '') s of
        [] \<Rightarrow> 0
      | c # cs \<Rightarrow>
          if c = CHR ''-'' then - dec_unsigned cs
          else if c = CHR ''+'' then dec_unsigned cs
          else dec_unsigned (c # cs))"

definition sample_atol :: "string \<Rightarrow> int" where
  "sample_atol s =
     (case dropWhile (\<lambda>c. c = CHR '' '') s of
        [] \<Rightarrow> 0
      | c # cs \<Rightarrow>
          if c = CHR ''-'' then - int (dec_nat 0 cs)
          else if c = CHR ''+'' then int (dec_nat 0 cs)
          else int (dec_nat 0 (c # cs)))"

definition sample_ctime :: "int \<Rightarrow> string option" where
  "sample_ctime t =
     (if t = 0 then Some (''Thu Jan  1 00:00:00 1970'' @ [CHR 0x0A])
      else if t = 1 then Some (''Thu Jan  1 00:00:01 1970'' @ [CHR 0x0A])
      else if t = 2 then Some (''Thu Jan  1 00:00:02 1970'' @ [CHR 0x0A])
      else None)"

definition sample_libc :: libc where
  "sample_libc = \<lparr>atof = sample_atof, atol = sample_atol, ctime = sample_ctime\<rparr>"

text \<open>A line of input: the fields separated by tabs, ended by a newline.\<close>

fun join_tabs :: "string list \<Rightarrow> string" where
  "join_tabs [] = []"
| "join_tabs [f] = f"
| "join_tabs (f # fs) = f @ CHR 0x09 # join_tabs fs"

definition tdv_line :: "string list \<Rightarrow> string" where
  "tdv_line fs = join_tabs fs @ [CHR 0x0A]"

subsection \<open>Sample inputs\<close>

text \<open>
  Lines for the concrete runs below. The first two are the records of the end-to-end
  example of the specification; \<open>ca_line3\<close> repeats the temperature of \<open>ca_line2\<close> at a
  later time; \<open>hot_line\<close> has a temperature of 1000 K, \<open>missing_line\<close> the value -9999.
\<close>

definition ca_line1 :: string where
  "ca_line1 = tdv_line [''CA'', ''0'', ''geo'', ''50'', ''0'', ''10'', ''0'', ''100000'', ''273.15'']"

definition ca_line2 :: string where
  "ca_line2 = tdv_line [''CA'', ''1000'', ''geo'', ''60'', ''1'', ''20'', ''1'', ''100000'', ''283.15'']"

definition ca_line3 :: string where
  "ca_line3 = tdv_line [''CA'', ''2000'', ''geo'', ''55'', ''0'', ''15'', ''0'', ''100000'', ''283.15'']"

definition tx_line :: string where
  "tx_line = tdv_line [''TX'', ''2000'', ''geo'', ''40'', ''0'', ''30'', ''1'', ''100000'', ''300'']"

definition hot_line :: string where
  "hot_line = tdv_line [''NV'', ''0'', ''geo'', ''5'', ''0'', ''0'', ''0'', ''100000'', ''1000'']"

definition missing_line :: string where
  "missing_line = tdv_line [''AK'', ''0'', ''geo'', ''80'', ''1'', ''90'', ''0'', ''100000'', ''-9999'']"

text \<open>
  The structs these lines give: TX after \<open>tx_line\<close>, CA after its first line, its first
  two and its three lines, NV after \<open>hot_line\<close> and AK after \<open>missing_line\<close>.
\<close>

definition tx_info :: climate_info where
  "tx_info =
     \<lparr>code = ''TX'', num_records = 1, totalTemp = 80.33, totalHumidity = 40,
      maxTemp = 80.33, maxTempDate = Some (''Thu Jan  1 00:00:02 1970'' @ [CHR 0x0A]),
      minTemp = 80.33, minTempDate = Some (''Thu Jan  1 00:00:02 1970'' @ [CHR 0x0A]),
      lightningStrikeCount = 1, snowCoverCount = 0, totalCloudCover = 30\<rparr>"

definition ca_info1 :: climate_info where
  "ca_info1 =
     \<lparr>code = ''CA'', num_records = 1, totalTemp = 32, totalHumidity = 50,
      maxTemp = 32, maxTempDate = Some (''Thu Jan  1 00:00:00 1970'' @ [CHR 0x0A]),
      minTemp = 32, minTempDate = Some (''Thu Jan  1 00:00:00 1970'' @ [CHR 0x0A]),
      lightningStrikeCount = 0, snowCoverCount = 0, totalCloudCover = 10\<rparr>"

definition ca_info12 :: climate_info where
  "ca_info12 =
     \<lparr>code = ''CA'', num_records = 2, totalTemp = 82, totalHumidity = 110,
      maxTemp = 50, maxTempDate = Some (''Thu Jan  1 00:00:01 1970'' @ [CHR 0x0A]),
      minTemp = 32, minTempDate = Some (''Thu Jan  1 00:00:00 1970'' @ [CHR 0x0A]),
      lightningStrikeCount = 1, snowCoverCount = 1, totalCloudCover = 30\<rparr>"

definition ca_info123 :: climate_info where
  "ca_info123 =
     \<lparr>code = ''CA'', num_records = 3, totalTemp = 132, totalHumidity = 165,
      maxTemp = 50, maxTempDate = Some (''Thu Jan  1 00:00:01 1970'' @ [CHR 0x0A]),
      minTemp = 32, minTempDate = Some (''Thu Jan  1 00:00:00 1970'' @ [CHR 0x0A]),
      lightningStrikeCount = 1, snowCoverCount = 1, totalCloudCover = 45\<rparr>"

definition nv_info :: climate_info where
  "nv_info =
     \<lparr>code = ''NV'', num_records = 1, totalTemp = 1340.33, totalHumidity = 5,
      maxTemp = 1340.33, maxTempDate = Some (''Thu Jan  1 00:00:00 1970'' @ [CHR 0x0A]),
      minTemp = 1000, minTempDate = None,
      lightningStrikeCount = 0, snowCoverCount = 0, totalCloudCover = 0\<rparr>"

definition ak_info :: climate_info where
  "ak_info =
     \<lparr>code = ''AK'', num_records = 1, totalTemp = - 18457.87, totalHumidity = 80,
      maxTemp = - 1000, maxTempDate = None,
      minTemp = - 18457.87, minTempDate = Some (''Thu Jan  1 00:00:00 1970'' @ [CHR 0x0A]),
      lightningStrikeCount = 0, snowCoverCount = 1, totalCloudCover = 90\<rparr>"

text \<open>The array after the sample lines.\<close>

definition st_tx :: states where
  "st_tx = (replicate NUM_STATES None)[0 := Some tx_info]"

definition st_tx_ca1 :: states where
  "st_tx_ca1 = (replicate NUM_STATES None)[0 := Some tx_info, 1 := Some ca_info1]"

definition st_tx_ca12 :: states where
  "st_tx_ca12 = (replicate NUM_STATES None)[0 := Some tx_info, 1 := Some ca_info12]"

definition st_tx_ca123 :: states where
  "st_tx_ca123 = (replicate NUM_STATES None)[0 := Some tx_info, 1 := Some ca_info123]"

definition st_nv :: states where
  "st_nv = (replicate NUM_STATES None)[0 := Some nv_info]"

definition st_nv_ak :: states where
  "st_nv_ak = (replicate NUM_STATES None)[0 := Some nv_info, 1 := Some ak_info]"

text \<open>A file system with three files, and the arguments of a run.\<close>

definition sample_fopen :: "string \<Rightarrow> string option" where
  "sample_fopen name =
     (if name = ''tx_ca.tdv'' then Some (tx_line @ ca_line1 @ ca_line2)
      else if name = ''ca.tdv'' then Some ca_line3
      else if name = ''extreme.tdv'' then Some (hot_line @ missing_line)
      else None)"

definition sample_args :: "string list" where
  "sample_args = [''tx_ca.tdv'', ''nofile.tdv'', ''ca.tdv'']"

text \<open>
  Two lines whose lightning flag is empty, the second with a tenth field, and the struct
  the second one gives; the block reported for a struct with no record.
\<close>

definition no_flag_line9 :: string where
  "no_flag_line9 = tdv_line [''CA'', ''0'', ''geo'', ''50'', ''0'', ''10'', '''', ''100000'', ''273.15'']"

definition no_flag_line10 :: string where
  "no_flag_line10 =
     tdv_line [''CA'', ''0'', ''geo'', ''50'', ''0'', ''10'', '''', ''100000'', ''273.15'', ''280'']"

definition no_flag_info :: climate_info where
  "no_flag_info =
     \<lparr>code = ''CA'', num_records = 1, totalTemp = 44.33, totalHumidity = 50,
      maxTemp = 44.33, maxTempDate = Some (''Thu Jan  1 00:00:00 1970'' @ [CHR 0x0A]),
      minTemp = 44.33, minTempDate = Some (''Thu Jan  1 00:00:00 1970'' @ [CHR 0x0A]),
      lightningStrikeCount = 1, snowCoverCount = 0, totalCloudCover = 10\<rparr>"

definition empty_block :: report_block where
  "empty_block =
     \<lparr>rb_code = ''CA'', rb_num_records = 0, rb_avgHumidity = None, rb_avgTemp = None,
      rb_maxTemp = - 1000, rb_maxTempDate = None, rb_minTemp = 1000, rb_minTempDate = None,
      rb_lightningStrikes = 0, rb_snowCover = 0, rb_avgCloudCover = None\<rparr>"

text \<open>
  A file with one record for each of the fifty states and one for DC; \<open>record_rest\<close>
  is what follows the state code and its tab in such a record, up to the newline, and
  \<open>info_of c\<close> the struct of \<open>c\<close> after its record. A plain code is one that is a token
  by itself.
\<close>

definition fifty_codes :: "string list" where
  "fifty_codes =
     [''AL'', ''AK'', ''AZ'', ''AR'', ''CA'', ''CO'', ''CT'', ''DE'', ''FL'', ''GA'',
      ''HI'', ''ID'', ''IL'', ''IN'', ''IA'', ''KS'', ''KY'', ''LA'', ''ME'', ''MD'',
      ''MA'', ''MI'', ''MN'', ''MS'', ''MO'', ''MT'', ''NE'', ''NV'', ''NH'', ''NJ'',
      ''NM'', ''NY'', ''NC'', ''ND'', ''OH'', ''OK'', ''OR'', ''PA'', ''RI'', ''SC'',
      ''SD'', ''TN'', ''TX'', ''UT'', ''VT'', ''VA'', ''WA'', ''WV'', ''WI'', ''WY'']"

definition record_of :: "string \<Rightarrow> string" where
  "record_of c = tdv_line [c, ''0'', ''geo'', ''50'', ''0'', ''10'', ''0'', ''100000'', ''273.15'']"

definition record_rest :: string where
  "record_rest = join_tabs [''0'', ''geo'', ''50'', ''0'', ''10'', ''0'', ''100000'', ''273.15'']"

definition info_of :: "string \<Rightarrow> climate_info" where
  "info_of c =
     \<lparr>code = c, num_records = 1, totalTemp = 32, totalHumidity = 50,
      maxTemp = 32, maxTempDate = Some (''Thu Jan  1 00:00:00 1970'' @ [CHR 0x0A]),
      minTemp = 32, minTempDate = Some (''Thu Jan  1 00:00:00 1970'' @ [CHR 0x0A]),
      lightningStrikeCount = 0, snowCoverCount = 0, totalCloudCover = 10\<rparr>"

definition fifty_one_states :: string where
  "fifty_one_states = concat (map record_of (fifty_codes @ [''DC'']))"

definition plain_code :: "string \<Rightarrow> bool" where
  "plain_code c \<longleftrightarrow> c \<noteq> [] \<and> length c \<le> 2 \<and> CHR 0x09 \<notin> set c \<and> CHR 0x0A \<notin> set c"


text \<open>
  A temperature of exactly 1000 degrees Fahrenheit. The double nearest to
  810.9277777777778, multiplied by 1.8 and reduced by 459.67 in double arithmetic, is
  exactly 1000.0. With doubles read as reals, the number whose conversion is 1000 is
  145967 / 180, so \<open>exact_atof\<close> gives this value for that token, and the value of
  \<open>sample_atof\<close> for every other one. \<open>tie_line1\<close> and \<open>tie_line2\<close> are two records of one
  state at that temperature, \<open>az_info1\<close> and \<open>az_info12\<close> the struct after the first and
  after both.
\<close>

definition exact_atof :: "string \<Rightarrow> real" where
  "exact_atof s =
     (if takeWhile (\<lambda>c. is_digit c \<or> c = CHR ''.'') s = ''810.9277777777778''
      then 145967 / 180 else sample_atof s)"

definition exact_libc :: libc where
  "exact_libc = \<lparr>atof = exact_atof, atol = sample_atol, ctime = sample_ctime\<rparr>"

definition tie_line1 :: string where
  "tie_line1 =
     tdv_line [''AZ'', ''0'', ''geo'', ''5'', ''0'', ''0'', ''0'', ''100000'', ''810.9277777777778'']"

definition tie_line2 :: string where
  "tie_line2 =
     tdv_line [''AZ'', ''1000'', ''geo'', ''7'', ''0'', ''0'', ''0'', ''100000'', ''810.9277777777778'']"

definition az_info1 :: climate_info where
  "az_info1 =
     \<lparr>code = ''AZ'', num_records = 1, totalTemp = 1000, totalHumidity = 5,
      maxTemp = 1000, maxTempDate = Some (''Thu Jan  1 00:00:00 1970'' @ [CHR 0x0A]),
      minTemp = 1000, minTempDate = None,
      lightningStrikeCount = 0, snowCoverCount = 0, totalCloudCover = 0\<rparr>"

definition az_info12 :: climate_info where
  "az_info12 =
     \<lparr>code = ''AZ'', num_records = 2, totalTemp = 2000, totalHumidity = 12,
      maxTemp = 1000, maxTempDate = Some (''Thu Jan  1 00:00:00 1970'' @ [CHR 0x0A]),
      minTemp = 1000, minTempDate = None,
      lightningStrikeCount = 0, snowCoverCount = 0, totalCloudCover = 0\<rparr>"

definition st_az1 :: states where
  "st_az1 = (replicate NUM_STATES None)[0 := Some az_info1]"

definition st_az12 :: states where
  "st_az12 = (replicate NUM_STATES None)[0 := Some az_info12]"

section \<open>Lemmas\<close>

subsection \<open>One line\<close>

lemma strtok_Nil: "strtok [] d = (None, [])"
  by (simp add: strtok_def)

lemma strtok_None: "strtok s d = (None, r) \<Longrightarrow> r = []"
  by (auto simp: strtok_def Let_def split: if_splits)

lemma bind_e_Inr_iff: "bind_e m f = Inr y \<longleftrightarrow> (\<exists>x. m = Inr x \<and> f x = Inr y)"
  by (cases m) (simp_all add: bind_e_def)

lemma bind_e_simps: "bind_e (Inr x) f = f x" "bind_e (Inl e) f = Inl e"
  by (simp_all add: bind_e_def)

lemma deref_Inr_iff: "deref p = Inr x \<longleftrightarrow> p = Some x"
  by (cases p) (simp_all add: deref_def)

lemma strcpy_Inr_iff: "strcpy n src = Inr s \<longleftrightarrow> src = Some s \<and> length s < n"
  by (cases src) (auto simp: strcpy_def bind_e_def deref_def)

lemma incr_int_Inr_iff: "incr_int n = Inr m \<longleftrightarrow> n \<noteq> INT_MAX \<and> m = n + 1"
  by (auto simp: incr_int_def)

lemma tokens_Some: "strtok s delim = (Some t, r) \<Longrightarrow> tokens s = t # tokens r"
  by (subst tokens.simps) simp

lemma tokens_None: "strtok s delim = (None, r) \<Longrightarrow> tokens s = []"
  by (subst tokens.simps) simp

lemma count_flag_Inr:
  "count_flag t n = Inr m \<Longrightarrow> m = n + (if first_is_1 t then 1 else 0)"
  by (auto simp: count_flag_def incr_int_Inr_iff split: if_splits)

lemma update_extrema_Inr:
  assumes "update_extrema L temp ts ci = Inr ci'"
  shows "ci' = ci\<lparr>maxTemp := (if temp > maxTemp ci then temp else maxTemp ci),
                   maxTempDate := (if temp > maxTemp ci then ctime L ts else maxTempDate ci),
                   minTemp := (if temp < minTemp ci then temp else minTemp ci),
                   minTempDate := (if temp < minTemp ci then ctime L ts else minTempDate ci)\<rparr>"
proof (cases "temp > maxTemp ci")
  case True
  with assms show ?thesis
    by (cases "temp < minTemp ci")
      (auto simp: update_extrema_def bind_e_Inr_iff strcpy_Inr_iff)
next
  case False
  with assms show ?thesis
    by (cases "temp < minTemp ci")
      (auto simp: update_extrema_def bind_e_simps bind_e_Inr_iff strcpy_Inr_iff)
qed


lemma deref_Some: "deref (Some x) = Inr x"
  by (simp add: deref_def)

lemma update_info_Inr:
  assumes "update_info L ci s1 = Inr ci'"
  shows "8 \<le> length (tokens s1) \<and> ci' = folded L ci (t1 # tokens s1)"
proof -
  obtain k2 s2 where 2: "strtok s1 delim = (k2, s2)" by force
  obtain k3 s3 where 3: "strtok s2 delim = (k3, s3)" by force
  obtain k4 s4 where 4: "strtok s3 delim = (k4, s4)" by force
  obtain k5 s5 where 5: "strtok s4 delim = (k5, s5)" by force
  obtain k6 s6 where 6: "strtok s5 delim = (k6, s6)" by force
  obtain k7 s7 where 7: "strtok s6 delim = (k7, s7)" by force
  obtain k8 s8 where 8: "strtok s7 delim = (k8, s8)" by force
  obtain k9 s9 where 9: "strtok s8 delim = (k9, s9)" by force
  note ks = 2 3 4 5 6 7 8 9
  note u = assms [unfolded update_info_def Let_def, simplified ks prod.case bind_e_Inr_iff deref_Inr_iff]
  from u obtain t2 where k2: "k2 = Some t2" by blast
  from u obtain t4 where k4: "k4 = Some t4" by blast
  from u obtain t5 where k5: "k5 = Some t5" by blast
  from u obtain t6 where k6: "k6 = Some t6" by blast
  from u obtain t7 where k7: "k7 = Some t7" by blast
  from u obtain t9 where k9: "k9 = Some t9" by blast
  have "k3 \<noteq> None"
  proof
    assume "k3 = None"
    with 3 have "s3 = []" by (simp add: strtok_None)
    with 4 k4 show False by (simp add: strtok_Nil)
  qed
  then obtain t3 where k3: "k3 = Some t3" by blast
  have "k8 \<noteq> None"
  proof
    assume "k8 = None"
    with 8 have "s8 = []" by (simp add: strtok_None)
    with 9 k9 show False by (simp add: strtok_Nil)
  qed
  then obtain t8 where k8: "k8 = Some t8" by blast
  note kt = k2 k3 k4 k5 k6 k7 k8 k9
  have T: "tokens s1 = t2 # t3 # t4 # t5 # t6 # t7 # t8 # t9 # tokens s9"
    using ks unfolding kt by (simp add: tokens_Some)
  note v = assms [unfolded update_info_def Let_def, simplified ks kt prod.case deref_Some bind_e_simps bind_e_Inr_iff]
  from v obtain n5 n7 where
    n5: "count_flag t5 (snowCoverCount ci) = Inr n5" and
    n7: "count_flag t7 (lightningStrikeCount ci) = Inr n7" and
    e: "update_extrema L (atof L t9 * 1.8 - 459.67) (atol L t2 sdiv 1000)
          (ci\<lparr>num_records := num_records ci + 1,
              totalHumidity := totalHumidity ci + atof L t4,
              snowCoverCount := n5,
              totalCloudCover := totalCloudCover ci + atof L t6,
              lightningStrikeCount := n7,
              totalTemp := totalTemp ci + (atof L t9 * 1.8 - 459.67)\<rparr>) = Inr ci'"
    by auto
  have "ci' = folded L ci (t1 # tokens s1)"
    unfolding update_extrema_Inr [OF e] count_flag_Inr [OF n5] count_flag_Inr [OF n7] T
    by (simp add: folded_def Let_def)
  with T show ?thesis by simp
qed


lemma indexOfState_from_Inr:
  assumes "indexOfState_from i S c = Inr r" and "length S \<le> 50"
  shows "\<exists>k. i \<le> k \<and> k < length S \<and>
           (\<forall>j. i \<le> j \<and> j < k \<longrightarrow> (\<exists>e. S ! j = Some e \<and> Some (code e) \<noteq> c)) \<and>
           ((\<exists>e. S ! k = Some e \<and> c = Some (code e) \<and> r = int k) \<or>
            (S ! k = None \<and> r < 0 \<and> (if r = - 50 then 0 else - r) = int k))"
  using assms
proof (induction i S c rule: indexOfState_from.induct)
  case (1 i S c)
  from "1.prems" have i: "i < length S"
    by (subst (asm) indexOfState_from.simps) (auto split: if_splits)
  show ?case
  proof (cases "S ! i")
    case None
    with "1.prems" i have "r = (if i = 0 then - 50 else - int i)"
      by (subst (asm) indexOfState_from.simps) auto
    with None i "1.prems"(2) show ?thesis
      by (intro exI [of _ i]) auto
  next
    case (Some ci)
    with "1.prems" i obtain s where c: "c = Some s"
      by (subst (asm) indexOfState_from.simps) (auto split: option.splits)
    show ?thesis
    proof (cases "code ci = s")
      case True
      with "1.prems" i Some c have "r = int i"
        by (subst (asm) indexOfState_from.simps) auto
      with Some c True i show ?thesis
        by (intro exI [of _ i]) auto
    next
      case False
      with "1.prems" i Some c have "indexOfState_from (Suc i) S c = Inr r"
        by (subst (asm) indexOfState_from.simps) auto
      from "1.IH" [OF _ Some c False this "1.prems"(2)] i
      obtain k where k: "Suc i \<le> k" "k < length S"
        "\<forall>j. Suc i \<le> j \<and> j < k \<longrightarrow> (\<exists>e. S ! j = Some e \<and> Some (code e) \<noteq> c)"
        "(\<exists>e. S ! k = Some e \<and> c = Some (code e) \<and> r = int k) \<or>
            (S ! k = None \<and> r < 0 \<and> (if r = - 50 then 0 else - r) = int k)"
        by auto
      have "\<forall>j. i \<le> j \<and> j < k \<longrightarrow> (\<exists>e. S ! j = Some e \<and> Some (code e) \<noteq> c)"
      proof (intro allI impI)
        fix j assume "i \<le> j \<and> j < k"
        then consider "j = i" | "Suc i \<le> j \<and> j < k" by linarith
        then show "\<exists>e. S ! j = Some e \<and> Some (code e) \<noteq> c"
          using Some c False k(3) by cases auto
      qed
      with k show ?thesis
        by (intro exI [of _ k]) auto
    qed
  qed
qed


lemma new_climate_info_Inr:
  assumes "new_climate_info c = Inr ci"
  shows "c = Some (code ci) \<and> length (code ci) \<le> 2 \<and> num_records ci = 0 \<and> totalTemp ci = 0 \<and>
         totalHumidity ci = 0 \<and> totalCloudCover ci = 0 \<and> lightningStrikeCount ci = 0 \<and>
         snowCoverCount ci = 0 \<and> maxTemp ci = - 1000 \<and> minTemp ci = 1000 \<and>
         maxTempDate ci = None \<and> minTempDate ci = None"
  using assms by (auto simp: new_climate_info_def base_values_def bind_e_Inr_iff strcpy_Inr_iff)

lemma new_climate_info_base: "new_climate_info (Some c) = Inr ci \<Longrightarrow> ci = base_values c"
  by (auto simp: new_climate_info_def bind_e_Inr_iff strcpy_Inr_iff)

lemma locate_Inr:
  assumes "locate S c = Inr (idx, S1)" and "length S \<le> 50"
  shows "idx < length S \<and>
         (\<forall>j < idx. \<exists>e. S ! j = Some e \<and> Some (code e) \<noteq> c) \<and>
         ((\<exists>e. S ! idx = Some e \<and> c = Some (code e) \<and> S1 = S) \<or>
          (S ! idx = None \<and> (\<exists>ci. new_climate_info c = Inr ci \<and> S1 = S[idx := Some ci])))"
proof -
  from assms(1) obtain r where r: "indexOfState_from 0 S c = Inr r"
    by (auto simp: locate_def indexOfState_def bind_e_Inr_iff)
  from indexOfState_from_Inr [OF r assms(2)] obtain k where k: "k < length S"
    "\<forall>j. j < k \<longrightarrow> (\<exists>e. S ! j = Some e \<and> Some (code e) \<noteq> c)"
    "(\<exists>e. S ! k = Some e \<and> c = Some (code e) \<and> r = int k) \<or>
       (S ! k = None \<and> r < 0 \<and> (if r = - 50 then 0 else - r) = int k)"
    by auto
  from k(3) show ?thesis
  proof
    assume "\<exists>e. S ! k = Some e \<and> c = Some (code e) \<and> r = int k"
    then obtain e where e: "S ! k = Some e" "c = Some (code e)" "r = int k" by blast
    with assms(1) r k(1) have "idx = k" "S1 = S"
      by (auto simp: locate_def indexOfState_def bind_e_simps)
    with e k show ?thesis by auto
  next
    assume n: "S ! k = None \<and> r < 0 \<and> (if r = - 50 then 0 else - r) = int k"
    with assms(1) r k(1) obtain ci where "new_climate_info c = Inr ci" "idx = k" "S1 = S[k := Some ci]"
      by (auto simp: locate_def indexOfState_def bind_e_simps bind_e_Inr_iff Let_def split: if_splits)
    with n k show ?thesis by auto
  qed
qed



lemma code_folded: "code (folded L ci ts) = code ci"
  by (simp add: folded_def Let_def)

lemma folded_fields:
  "num_records (folded L ci (tokens l)) = num_records ci + 1"
  "totalHumidity (folded L ci (tokens l)) = totalHumidity ci + humidity L l"
  "totalCloudCover (folded L ci (tokens l)) = totalCloudCover ci + cloud_cover L l"
  "totalTemp (folded L ci (tokens l)) = totalTemp ci + fahrenheit L l"
  "snowCoverCount (folded L ci (tokens l)) = snowCoverCount ci + (if snow_flag l then 1 else 0)"
  "lightningStrikeCount (folded L ci (tokens l)) =
     lightningStrikeCount ci + (if lightning_flag l then 1 else 0)"
  "maxTemp (folded L ci (tokens l)) =
     (if maxTemp ci < fahrenheit L l then fahrenheit L l else maxTemp ci)"
  "maxTempDate (folded L ci (tokens l)) =
     (if maxTemp ci < fahrenheit L l then ctime L (timestamp L l) else maxTempDate ci)"
  "minTemp (folded L ci (tokens l)) =
     (if fahrenheit L l < minTemp ci then fahrenheit L l else minTemp ci)"
  "minTempDate (folded L ci (tokens l)) =
     (if fahrenheit L l < minTemp ci then ctime L (timestamp L l) else minTempDate ci)"
  by (simp_all add: folded_def Let_def humidity_def cloud_cover_def fahrenheit_def kelvin_def
      snow_flag_def lightning_flag_def timestamp_def)

lemma process_line_Inr:
  assumes "process_line L S line = Inr S'" and "length S \<le> 50"
  shows "\<exists>idx ci0. idx < length S \<and> 9 \<le> length (tokens line) \<and> code ci0 = state_code line \<and>
           (\<forall>j < idx. \<exists>e. S ! j = Some e \<and> code e \<noteq> state_code line) \<and>
           (S ! idx = Some ci0 \<or>
            (S ! idx = None \<and> new_climate_info (Some (state_code line)) = Inr ci0)) \<and>
           S' = S[idx := Some (folded L ci0 (tokens line))]"
proof -
  obtain c s1 where tok: "strtok line delim = (c, s1)" by force
  with assms(1) obtain idx S1 ci0 ci' where
    loc: "locate S c = Inr (idx, S1)" and ci0: "S1 ! idx = Some ci0" and
    upd: "update_info L ci0 s1 = Inr ci'" and S': "S' = S1[idx := Some ci']"
    by (auto simp: process_line_def bind_e_Inr_iff deref_Inr_iff)
  from locate_Inr [OF loc assms(2)] have idx: "idx < length S"
    and before: "\<forall>j < idx. \<exists>e. S ! j = Some e \<and> Some (code e) \<noteq> c"
    and cases: "(\<exists>e. S ! idx = Some e \<and> c = Some (code e) \<and> S1 = S) \<or>
          (S ! idx = None \<and> (\<exists>ci. new_climate_info c = Inr ci \<and> S1 = S[idx := Some ci]))"
    by auto
  have c: "c = Some (code ci0)" and
    ci0': "S ! idx = Some ci0 \<or> (S ! idx = None \<and> new_climate_info c = Inr ci0)" and
    S1: "S1[idx := Some ci'] = S[idx := Some ci']"
    using cases ci0 idx by (auto dest: new_climate_info_Inr)
  from tok c have T: "tokens line = code ci0 # tokens s1"
    by (simp add: tokens_Some)
  then have sc: "state_code line = code ci0"
    by (simp add: state_code_def)
  from update_info_Inr [OF upd, of "code ci0"] T
  have len: "9 \<le> length (tokens line)" and ci': "ci' = folded L ci0 (tokens line)"
    by auto
  show ?thesis
    using idx len sc before ci0' S' S1 ci' c
    by (intro exI [of _ idx] exI [of _ ci0]) auto
qed

lemma wf_length: "wf_states S \<Longrightarrow> length S \<le> 50"
  by (simp add: wf_states_def NUM_STATES_def)

lemma wf_contig: "wf_states S \<Longrightarrow> i < j \<Longrightarrow> j < length S \<Longrightarrow> S ! i = None \<Longrightarrow> S ! j = None"
  unfolding wf_states_def by blast

lemma wf_distinct:
  "wf_states S \<Longrightarrow> i < length S \<Longrightarrow> j < length S \<Longrightarrow> S ! i = Some e \<Longrightarrow> S ! j = Some e' \<Longrightarrow>
     code e = code e' \<Longrightarrow> i = j"
  unfolding wf_states_def by blast

lemma process_line_step:
  assumes "process_line L S line = Inr S'" and "wf_states S"
  obtains idx ci0 where "idx < length S" and "9 \<le> length (tokens line)"
    and "code ci0 = state_code line"
    and "S ! idx = Some ci0 \<or> (S ! idx = None \<and> new_climate_info (Some (state_code line)) = Inr ci0)"
    and "S' = S[idx := Some (folded L ci0 (tokens line))]"
    and "\<And>j e. j < length S \<Longrightarrow> j \<noteq> idx \<Longrightarrow> S ! j = Some e \<Longrightarrow> code e \<noteq> state_code line"
    and "wf_states S'"
proof -
  have len: "length S \<le> 50"
    and contig: "\<And>i j. i < j \<Longrightarrow> j < length S \<Longrightarrow> S ! i = None \<Longrightarrow> S ! j = None"
    and dist: "\<And>i j e e'. i < length S \<Longrightarrow> j < length S \<Longrightarrow> S ! i = Some e \<Longrightarrow>
                 S ! j = Some e' \<Longrightarrow> code e = code e' \<Longrightarrow> i = j"
    using assms(2) by (simp_all add: wf_length wf_contig wf_distinct)
  from process_line_Inr [OF assms(1) len] obtain idx ci0 where
    idx: "idx < length S" and n: "9 \<le> length (tokens line)" and
    c: "code ci0 = state_code line" and
    before: "\<forall>j < idx. \<exists>e. S ! j = Some e \<and> code e \<noteq> state_code line" and
    ci0: "S ! idx = Some ci0 \<or>
            (S ! idx = None \<and> new_climate_info (Some (state_code line)) = Inr ci0)" and
    S': "S' = S[idx := Some (folded L ci0 (tokens line))]"
    by blast
  have other: "code e \<noteq> state_code line"
    if "j < length S" "j \<noteq> idx" "S ! j = Some e" for j e
  proof (cases "j < idx")
    case True
    with before that show ?thesis by auto
  next
    case False
    with that have gt: "idx < j" by simp
    from ci0 show ?thesis
    proof
      assume "S ! idx = Some ci0"
      with dist [OF idx that(1) _ that(3)] that(2) c show ?thesis by auto
    next
      assume "S ! idx = None \<and> new_climate_info (Some (state_code line)) = Inr ci0"
      with contig [OF gt that(1)] that(3) show ?thesis by simp
    qed
  qed
  have "wf_states S'"
    unfolding wf_states_def
  proof (intro conjI allI impI)
    show "length S' = NUM_STATES"
      using assms(2) S' by (simp add: wf_states_def)
  next
    fix i j assume a: "i < j \<and> j < length S' \<and> S' ! i = None"
    with S' have lt: "i < length S" "j < length S" by simp_all
    have ni: "i \<noteq> idx"
    proof
      assume "i = idx"
      with S' idx have "S' ! i \<noteq> None" by simp
      with a show False by simp
    qed
    with a S' have Si: "S ! i = None" by simp
    with before have "\<not> i < idx" by auto
    with ni a have "idx < j" by simp
    moreover from contig [of i j] a lt Si have "S ! j = None" by simp
    ultimately show "S' ! j = None"
      using S' by simp
  next
    fix i j e e'
    assume a: "i < length S' \<and> j < length S' \<and> S' ! i = Some e \<and> S' ! j = Some e' \<and> code e = code e'"
    show "i = j"
    proof (cases "i = idx"; cases "j = idx")
      assume "i = idx" "j \<noteq> idx"
      with a S' have "code e = state_code line" "S ! j = Some e'" "j < length S"
        by (auto simp: code_folded c)
      with other [of j e'] \<open>j \<noteq> idx\<close> a show ?thesis by auto
    next
      assume "i \<noteq> idx" "j = idx"
      with a S' have "code e' = state_code line" "S ! i = Some e" "i < length S"
        by (auto simp: code_folded c)
      with other [of i e] \<open>i \<noteq> idx\<close> a show ?thesis by auto
    next
      assume "i \<noteq> idx" "j \<noteq> idx"
      with a S' dist [of i j e e'] show ?thesis by auto
    qed simp
  qed
  with idx n c ci0 S' other that show ?thesis by blast
qed

lemma wf_states_process_line:
  "process_line L S line = Inr S' \<Longrightarrow> wf_states S \<Longrightarrow> wf_states S'"
  by (erule (1) process_line_step)

lemma process_line_existing:
  assumes "process_line L S line = Inr S'" and "wf_states S"
    and "i < length S" and "S ! i = Some e" and "code e = state_code line"
  shows "S' = S[i := Some (folded L e (tokens line))]"
proof -
  from process_line_step [OF assms(1,2)] obtain idx ci0 where
    ci0: "S ! idx = Some ci0 \<or>
            (S ! idx = None \<and> new_climate_info (Some (state_code line)) = Inr ci0)" and
    S': "S' = S[idx := Some (folded L ci0 (tokens line))]" and
    other: "\<And>j e. j < length S \<Longrightarrow> j \<noteq> idx \<Longrightarrow> S ! j = Some e \<Longrightarrow> code e \<noteq> state_code line"
    by blast
  from other [OF assms(3) _ assms(4)] assms(5) have "i = idx" by blast
  with ci0 assms(4) S' show ?thesis by auto
qed

lemma process_line_new:
  assumes "process_line L S line = Inr S'" and "wf_states S"
    and "\<forall>e. Some e \<in> set S \<longrightarrow> code e \<noteq> state_code line"
  shows "\<exists>idx < length S. S ! idx = None \<and>
           S' = S[idx := Some (folded L (base_values (state_code line)) (tokens line))]"
proof -
  from process_line_step [OF assms(1,2)] obtain idx ci0 where
    idx: "idx < length S" and c: "code ci0 = state_code line" and
    ci0: "S ! idx = Some ci0 \<or>
            (S ! idx = None \<and> new_climate_info (Some (state_code line)) = Inr ci0)" and
    S': "S' = S[idx := Some (folded L ci0 (tokens line))]"
    by blast
  have "S ! idx \<noteq> Some ci0"
  proof
    assume a: "S ! idx = Some ci0"
    with idx have "Some ci0 \<in> set S" by (metis nth_mem)
    with assms(3) c show False by blast
  qed
  with ci0 have "S ! idx = None" "ci0 = base_values (state_code line)"
    by (auto dest: new_climate_info_base)
  with idx S' show ?thesis by blast
qed


subsection \<open>A whole run\<close>

lemma summary_Nil: "summary L c [] = base_values c"
  by (simp add: summary_def)

lemma summary_snoc:
  "summary L c (ls @ [l]) =
     (if state_code l = c then folded L (summary L c ls) (tokens l) else summary L c ls)"
  by (simp add: summary_def)

lemma code_summary: "code (summary L c ls) = c"
  by (induction ls rule: rev_induct) (simp_all add: summary_Nil summary_snoc base_values_def code_folded)

lemma summary_no_lines:
  assumes "\<forall>l \<in> set ls. state_code l \<noteq> c"
  shows "summary L c ls = base_values c"
proof -
  from assms have "filter (\<lambda>l. state_code l = c) ls = []"
    by (simp add: filter_empty_conv)
  then show ?thesis
    by (simp add: summary_def)
qed

lemma summarises_step:
  assumes inv: "summarises L S ls" and step: "process_line L S l = Inr S'"
  shows "summarises L S' (ls @ [l])"
proof -
  from inv have wf: "wf_states S"
    and sum: "\<And>e. Some e \<in> set S \<Longrightarrow> e = summary L (code e) ls"
    and seen: "\<And>e. Some e \<in> set S \<Longrightarrow> \<exists>l \<in> set ls. state_code l = code e"
    and have_entry: "\<And>l. l \<in> set ls \<Longrightarrow> \<exists>e. Some e \<in> set S \<and> code e = state_code l"
    and long: "\<And>l. l \<in> set ls \<Longrightarrow> 9 \<le> length (tokens l)"
    unfolding summarises_def by blast+
  from process_line_step [OF step wf] obtain idx ci0 where
    idx: "idx < length S" and
    n9: "9 \<le> length (tokens l)" and
    c: "code ci0 = state_code l" and
    ci0: "S ! idx = Some ci0 \<or>
            (S ! idx = None \<and> new_climate_info (Some (state_code l)) = Inr ci0)" and
    S': "S' = S[idx := Some (folded L ci0 (tokens l))]" and
    other: "\<And>j e. j < length S \<Longrightarrow> j \<noteq> idx \<Longrightarrow> S ! j = Some e \<Longrightarrow> code e \<noteq> state_code l" and
    wf': "wf_states S'"
    by blast
  let ?e' = "folded L ci0 (tokens l)"
  have ci0_sum: "ci0 = summary L (state_code l) ls"
    using ci0
  proof
    assume "S ! idx = Some ci0"
    with idx have "Some ci0 \<in> set S"
      by (metis nth_mem)
    from sum [OF this] c show ?thesis by simp
  next
    assume n: "S ! idx = None \<and> new_climate_info (Some (state_code l)) = Inr ci0"
    have "\<forall>l0 \<in> set ls. state_code l0 \<noteq> state_code l"
    proof
      fix l0 assume "l0 \<in> set ls"
      from have_entry [OF this] obtain e where e: "Some e \<in> set S" "code e = state_code l0"
        by blast
      then obtain j where j: "j < length S" "S ! j = Some e"
        by (auto simp: in_set_conv_nth)
      with n have "j \<noteq> idx" by auto
      from other [OF j(1) this j(2)] e show "state_code l0 \<noteq> state_code l" by simp
    qed
    with n show ?thesis
      by (simp add: summary_no_lines new_climate_info_base)
  qed
  have e'_sum: "?e' = summary L (code ?e') (ls @ [l])"
    using ci0_sum c by (simp add: summary_snoc code_folded)
  have mem: "e = ?e' \<or> (Some e \<in> set S \<and> code e \<noteq> state_code l)" if "Some e \<in> set S'" for e
  proof -
    from that S' obtain j where j: "j < length S" "S' ! j = Some e"
      by (auto simp: in_set_conv_nth)
    show ?thesis
    proof (cases "j = idx")
      case True
      with j S' show ?thesis by simp
    next
      case False
      with j S' have "S ! j = Some e" by simp
      with other [OF j(1) False this] j(1) show ?thesis
        by (metis nth_mem)
    qed
  qed
  have e'_in: "Some ?e' \<in> set S'"
    using S' idx by (simp add: set_update_memI)
  show ?thesis
    unfolding summarises_def
  proof (intro conjI allI impI ballI)
    show "wf_states S'" by (rule wf')
  next
    fix e assume "Some e \<in> set S'"
    from mem [OF this] show "e = summary L (code e) (ls @ [l])"
    proof
      assume "e = ?e'" with e'_sum show ?thesis by simp
    next
      assume a: "Some e \<in> set S \<and> code e \<noteq> state_code l"
      then have "state_code l \<noteq> code e" by auto
      with a sum [of e] show ?thesis by (simp add: summary_snoc)
    qed
  next
    fix e assume "Some e \<in> set S'"
    from mem [OF this] show "\<exists>l' \<in> set (ls @ [l]). state_code l' = code e"
    proof
      assume "e = ?e'" with c show ?thesis by (simp add: code_folded)
    next
      assume "Some e \<in> set S \<and> code e \<noteq> state_code l"
      with seen [of e] show ?thesis by auto
    qed
  next
    fix l0 assume "l0 \<in> set (ls @ [l])"
    then consider "l0 = l" | "l0 \<in> set ls" by auto
    then show "9 \<le> length (tokens l0)"
      using n9 long by cases simp_all
  next
    fix l0 assume "l0 \<in> set (ls @ [l])"
    then consider "l0 = l" | "l0 \<in> set ls" by auto
    then show "\<exists>e. Some e \<in> set S' \<and> code e = state_code l0"
    proof cases
      case 1
      with e'_in c show ?thesis
        by (intro exI [of _ ?e']) (simp add: code_folded)
    next
      case 2
      from have_entry [OF this] obtain e where e: "Some e \<in> set S" "code e = state_code l0"
        by blast
      then obtain j where j: "j < length S" "S ! j = Some e"
        by (auto simp: in_set_conv_nth)
      show ?thesis
      proof (cases "j = idx")
        case True
        with j ci0 have "ci0 = e" by auto
        with e'_in e show ?thesis
          by (intro exI [of _ ?e']) (simp add: code_folded)
      next
        case False
        with j S' have "S' ! j = Some e" "j < length S'" by simp_all
        then have "Some e \<in> set S'" by (metis nth_mem)
        with e show ?thesis by blast
      qed
    qed
  qed
qed


lemma summarises_analyze_file:
  assumes "summarises L S ls" and "analyze_file L S f = Inr S'"
  shows "summarises L S' (ls @ lines_of f)"
  using assms
proof (induction L S f arbitrary: ls rule: analyze_file.induct)
  case (1 L S f)
  show ?case
  proof (cases "fgets line_sz f")
    case None
    with "1.prems" show ?thesis
      by (simp add: analyze_file.simps [of L S f] lines_of.simps [of f])
  next
    case (Some p)
    obtain line rest where p: "p = (line, rest)" by force
    with Some "1.prems"(2) obtain S1 where
      S1: "process_line L S line = Inr S1" and rest: "analyze_file L S1 rest = Inr S'"
      by (auto simp: analyze_file.simps [of L S f] split: sum.splits)
    from summarises_step [OF "1.prems"(1) S1] have "summarises L S1 (ls @ [line])" .
    from "1.IH" [OF Some p [symmetric] S1 this rest] Some p show ?thesis
      by (simp add: lines_of.simps [of f])
  qed
qed

lemma input_lines_Nil: "input_lines fopen [] = []"
  by (simp add: input_lines_def List.map_filter_simps)

lemma input_lines_Cons:
  "input_lines fopen (a # as) =
     (case fopen a of None \<Rightarrow> input_lines fopen as | Some f \<Rightarrow> lines_of f @ input_lines fopen as)"
  by (simp add: input_lines_def List.map_filter_simps split: option.splits)

lemma summarises_main_loop:
  assumes "summarises L S ls" and "main_loop L fopen i args S out = Inr (S', out')"
  shows "summarises L S' (ls @ input_lines fopen args)"
  using assms
proof (induction args arbitrary: i S out ls)
  case Nil
  then show ?case by (simp add: input_lines_Nil)
next
  case (Cons a args)
  show ?case
  proof (cases "fopen a")
    case None
    with Cons.prems(2) have "main_loop L fopen (i + 1) args S (out @ [OpeningFile a, ErrorFile i]) = Inr (S', out')"
      by simp
    from Cons.IH [OF Cons.prems(1) this] None show ?thesis
      by (simp add: input_lines_Cons)
  next
    case (Some f)
    with Cons.prems(2) obtain S1 where S1: "analyze_file L S f = Inr S1"
      and rest: "main_loop L fopen (i + 1) args S1 (out @ [OpeningFile a]) = Inr (S', out')"
      by (auto simp: bind_e_Inr_iff)
    from summarises_analyze_file [OF Cons.prems(1) S1] have "summarises L S1 (ls @ lines_of f)" .
    from Cons.IH [OF this rest] Some show ?thesis
      by (simp add: input_lines_Cons)
  qed
qed

lemma wf_states_init: "wf_states (replicate NUM_STATES None)"
  by (auto simp: wf_states_def)

lemma summarises_init: "summarises L (replicate NUM_STATES None) []"
  by (simp add: summarises_def wf_states_init)

lemma summary_num_records:
  "num_records (summary L c ls) = of_nat (length (filter (\<lambda>l. state_code l = c) ls))"
  by (induction ls rule: rev_induct)
    (simp_all add: summary_Nil summary_snoc folded_fields base_values_def)

lemma summary_snowCoverCount:
  "snowCoverCount (summary L c ls) =
     int (length (filter (\<lambda>l. state_code l = c \<and> snow_flag l) ls))"
  by (induction ls rule: rev_induct)
    (simp_all add: summary_Nil summary_snoc folded_fields base_values_def)

lemma summary_lightningStrikeCount:
  "lightningStrikeCount (summary L c ls) =
     int (length (filter (\<lambda>l. state_code l = c \<and> lightning_flag l) ls))"
  by (induction ls rule: rev_induct)
    (simp_all add: summary_Nil summary_snoc folded_fields base_values_def)

lemma summary_totalTemp:
  "totalTemp (summary L c ls) = (\<Sum>l\<leftarrow>filter (\<lambda>l. state_code l = c) ls. fahrenheit L l)"
  by (induction ls rule: rev_induct)
    (simp_all add: summary_Nil summary_snoc folded_fields base_values_def)

lemma temps_of_snoc:
  "temps_of L c (ls @ [l]) =
     (if state_code l = c then insert (fahrenheit L l) (temps_of L c ls) else temps_of L c ls)"
  by (auto simp: temps_of_def)

lemma finite_temps_of: "finite (temps_of L c ls)"
  unfolding temps_of_def by (rule finite_set)

lemma summary_maxTemp:
  "maxTemp (summary L c ls) = Max (insert (- 1000) (temps_of L c ls))"
proof (induction ls rule: rev_induct)
  case Nil
  then show ?case
    by (simp add: summary_Nil base_values_def temps_of_def)
next
  case (snoc l ls)
  show ?case
  proof (cases "state_code l = c")
    case True
    have "Max (insert (- 1000) (insert (fahrenheit L l) (temps_of L c ls))) =
          max (fahrenheit L l) (Max (insert (- 1000) (temps_of L c ls)))"
      by (subst insert_commute) (simp add: finite_temps_of)
    with True snoc show ?thesis
      by (simp add: summary_snoc temps_of_snoc folded_fields max_def)
  next
    case False
    with snoc show ?thesis
      by (simp add: summary_snoc temps_of_snoc)
  qed
qed

lemma summary_minTemp:
  "minTemp (summary L c ls) = Min (insert 1000 (temps_of L c ls))"
proof (induction ls rule: rev_induct)
  case Nil
  then show ?case
    by (simp add: summary_Nil base_values_def temps_of_def)
next
  case (snoc l ls)
  show ?case
  proof (cases "state_code l = c")
    case True
    have "Min (insert 1000 (insert (fahrenheit L l) (temps_of L c ls))) =
          min (fahrenheit L l) (Min (insert 1000 (temps_of L c ls)))"
      by (subst insert_commute) (simp add: finite_temps_of)
    with True snoc show ?thesis
      by (simp add: summary_snoc temps_of_snoc folded_fields min_def)
  next
    case False
    with snoc show ?thesis
      by (simp add: summary_snoc temps_of_snoc)
  qed
qed

lemma run_summarises:
  assumes "main_loop L fopen i args (replicate NUM_STATES None) out = Inr (S, out')"
  shows "summarises L S (input_lines fopen args)"
  using summarises_main_loop [OF summarises_init assms] by simp

lemma run_entry:
  assumes "main_loop L fopen i args (replicate NUM_STATES None) out = Inr (S, out')"
    and "Some e \<in> set S"
  shows "e = summary L (code e) (input_lines fopen args)"
    and "\<exists>l \<in> set (input_lines fopen args). state_code l = code e"
  using run_summarises [OF assms(1)] assms(2) unfolding summarises_def by blast+

lemma analyze_file_process_lines: "analyze_file L S f = process_lines L S (lines_of f)"
proof (induction L S f rule: analyze_file.induct)
  case (1 L S f)
  show ?case
  proof (cases "fgets line_sz f")
    case None
    then show ?thesis
      by (simp add: analyze_file.simps [of L S f] lines_of.simps [of f])
  next
    case (Some p)
    obtain line rest where p: "p = (line, rest)" by force
    show ?thesis
    proof (cases "process_line L S line")
      case (Inl e)
      with Some p show ?thesis
        by (simp add: analyze_file.simps [of L S f] lines_of.simps [of f] bind_e_simps)
    next
      case (Inr S1)
      from "1.IH" [OF Some p [symmetric] Inr] Some p Inr show ?thesis
        by (simp add: analyze_file.simps [of L S f] lines_of.simps [of f] bind_e_simps)
    qed
  qed
qed

subsection \<open>Tokens and the report\<close>

lemma strtok_token_nonempty:
  assumes "strtok s d = (Some t, r)"
  shows "t \<noteq> []"
proof -
  let ?s1 = "dropWhile (\<lambda>c. c \<in> set d) s"
  from assms have ne: "?s1 \<noteq> []" and t: "t = takeWhile (\<lambda>c. c \<notin> set d) ?s1"
    by (auto simp: strtok_def Let_def split: if_splits)
  from ne have "hd ?s1 \<notin> set d"
    using hd_dropWhile [of "\<lambda>c. c \<in> set d" s] by simp
  with ne show ?thesis
    unfolding t by (cases ?s1) auto
qed

lemma tokens_nonempty: "[] \<notin> set (tokens s)"
proof (induction s rule: tokens.induct)
  case (1 s)
  obtain k r where k: "strtok s delim = (k, r)" by force
  show ?case
  proof (cases k)
    case None
    with k show ?thesis by (simp add: tokens_None)
  next
    case (Some t)
    with k have "[] \<notin> set (tokens r)"
      by (intro "1.IH" [of k r t]) simp_all
    with k Some strtok_token_nonempty [of s delim t r]
    show ?thesis by (simp add: tokens_Some)
  qed
qed

lemma print_report_Inr:
  assumes "print_report S n = Inr (codes, blocks)" and "b \<in> set blocks"
  shows "\<exists>info. Some info \<in> set S \<and> b = block_of info"
proof -
  from assms(1) have "blocks = map block_of (List.map_filter id (take n S))"
    by (auto simp: print_report_def Let_def split: if_splits)
  with assms(2) obtain info where "info \<in> set (List.map_filter id (take n S))" "b = block_of info"
    by auto
  moreover from this have "Some info \<in> set (take n S)"
    by (auto simp: List.map_filter_def)
  ultimately show ?thesis
    by (auto dest: in_set_takeD)
qed

lemma block_of_averages:
  "rb_avgHumidity (block_of info) =
     (if num_records info = 0 then None
      else Some (totalHumidity info / real (unat (num_records info))))"
  "rb_avgTemp (block_of info) =
     (if num_records info = 0 then None
      else Some (totalTemp info / real (unat (num_records info))))"
  "rb_avgCloudCover (block_of info) =
     (if num_records info = 0 then None
      else Some (totalCloudCover info / real (unat (num_records info))))"
  by (simp_all add: block_of_def fdiv_def)

lemma map_filter_id_Some: "Some x \<in> set xs \<Longrightarrow> x \<in> set (List.map_filter id xs)"
  by (force simp: List.map_filter_def)

subsection \<open>Lookup in the array, and the loop of main\<close>

lemma length_store: "length es \<le> NUM_STATES \<Longrightarrow> length (store es) = NUM_STATES"
  by (simp add: store_def)

lemma nth_store:
  "i < length es \<Longrightarrow> store es ! i = Some (es ! i)"
  "length es \<le> i \<Longrightarrow> i < NUM_STATES \<Longrightarrow> store es ! i = None"
  by (simp_all add: store_def nth_append)

lemma store_snoc:
  assumes "length es < NUM_STATES"
  shows "(store es)[length es := Some x] = store (es @ [x])"
proof -
  from assms obtain m where m: "NUM_STATES - length es = Suc m"
    by (cases "NUM_STATES - length es") simp_all
  then have "NUM_STATES - Suc (length es) = m"
    by simp
  with m show ?thesis
    by (simp add: store_def list_update_append)
qed

lemma indexOfState_from_store:
  assumes "length es \<le> NUM_STATES" and "i \<le> length es"
  shows "indexOfState_from i (store es) (Some c) =
           (if \<exists>e \<in> set (drop i es). code e = c
            then Inr (int (i + length (takeWhile (\<lambda>e. code e \<noteq> c) (drop i es))))
            else if length es < NUM_STATES
            then Inr (if length es = 0 then - 50 else - int (length es))
            else Inl OutOfBounds)"
  using assms(2)
proof (induction "length es - i" arbitrary: i)
  case 0
  then have i: "i = length es" by simp
  show ?case
  proof (cases "length es < NUM_STATES")
    case True
    with i assms(1) show ?thesis
      by (subst indexOfState_from.simps) (simp add: length_store nth_store)
  next
    case False
    with i assms(1) show ?thesis
      by (subst indexOfState_from.simps) (simp add: length_store)
  qed
next
  case (Suc n)
  then have i: "i < length es" by simp
  then have d: "drop i es = es ! i # drop (Suc i) es"
    by (simp add: Cons_nth_drop_Suc)
  from i assms(1) have b: "\<not> length (store es) \<le> i" "store es ! i = Some (es ! i)"
    by (simp_all add: length_store nth_store)
  show ?case
  proof (cases "code (es ! i) = c")
    case True
    with b d show ?thesis
      by (subst indexOfState_from.simps) simp
  next
    case False
    from Suc have "n = length es - Suc i" "Suc i \<le> length es"
      by simp_all
    from Suc.hyps(1) [OF this] False b d show ?thesis
      by (subst indexOfState_from.simps) simp
  qed
qed

lemma locate_store:
  assumes "length es \<le> NUM_STATES" and "length c \<le> 2"
    and "(\<exists>e \<in> set es. code e = c) \<or> length es < NUM_STATES"
  shows "locate (store es) (Some c) =
           Inr (if \<exists>e \<in> set es. code e = c
                then (length (takeWhile (\<lambda>e. code e \<noteq> c) es), store es)
                else (length es, store (es @ [base_values c])))"
proof (cases "\<exists>e \<in> set es. code e = c")
  case True
  have "length (takeWhile (\<lambda>e. code e \<noteq> c) es) < length es"
  proof (rule ccontr)
    assume "\<not> length (takeWhile (\<lambda>e. code e \<noteq> c) es) < length es"
    then have "take (length (takeWhile (\<lambda>e. code e \<noteq> c) es)) es = es"
      by simp
    then have "takeWhile (\<lambda>e. code e \<noteq> c) es = es"
      by (simp add: takeWhile_eq_take [symmetric])
    with True show False
      by (simp add: takeWhile_eq_all_conv)
  qed
  with True assms(1) show ?thesis
    by (simp add: locate_def indexOfState_def indexOfState_from_store bind_e_simps length_store)
next
  case False
  with assms(3) have lt: "length es < NUM_STATES" by simp
  from assms(2) have n: "new_climate_info (Some c) = Inr (base_values c)"
    by (simp add: new_climate_info_def strcpy_def deref_def bind_e_simps)
  from lt have ne: "length es \<noteq> 50"
    by (simp add: NUM_STATES_def)
  have "(store [])[0 := Some (base_values c)] = store [base_values c]"
    using store_snoc [of "[]" "base_values c"] by (simp add: NUM_STATES_def)
  with False lt assms(1) n ne show ?thesis
    by (simp add: locate_def indexOfState_def indexOfState_from_store bind_e_simps length_store
        store_snoc Let_def)
qed

lemma main_loop_skips:
  "main_loop L fopen i args S out =
     (case main_loop L fopen j (filter (\<lambda>a. fopen a \<noteq> None) args) S out0 of
        Inl f \<Rightarrow> Inl f
      | Inr (S', out') \<Rightarrow> Inr (S', out @ notices fopen i args))"
proof (induction args arbitrary: i j S out out0)
  case Nil
  then show ?case by simp
next
  case (Cons a args)
  show ?case
  proof (cases "fopen a")
    case None
    with Cons [of "i + 1" S "out @ [OpeningFile a, ErrorFile i]" j out0] show ?thesis
      by (simp split: sum.splits prod.splits)
  next
    case (Some f)
    show ?thesis
    proof (cases "analyze_file L S f")
      case (Inl e)
      with Some show ?thesis by (simp add: bind_e_simps)
    next
      case (Inr S1)
      with Some Cons [of "i + 1" S1 "out @ [OpeningFile a]" "j + 1" "out0 @ [OpeningFile a]"]
      show ?thesis by (simp add: bind_e_simps split: sum.splits prod.splits)
    qed
  qed
qed

lemma ErrorFile_notices:
  "ErrorFile k \<in> set (notices fopen i args) \<longleftrightarrow>
     (\<exists>n < length args. k = i + int n \<and> fopen (args ! n) = None)"
proof (induction args arbitrary: i)
  case Nil
  then show ?case by simp
next
  case (Cons a args)
  have "(\<exists>n < length (a # args). k = i + int n \<and> fopen ((a # args) ! n) = None) \<longleftrightarrow>
        (k = i \<and> fopen a = None) \<or> (\<exists>n < length args. k = i + 1 + int n \<and> fopen (args ! n) = None)"
    by (auto simp: less_Suc_eq_0_disj)
  with Cons [of "i + 1"] show ?case
    by (auto split: option.splits)
qed

subsection \<open>The dates of the extrema\<close>

lemma process_line_extrema:
  assumes "process_line L S line = Inr S'" and "wf_states S"
    and "i < length S" and "S ! i = Some e" and "code e = state_code line"
  shows "\<exists>e'. S' ! i = Some e' \<and>
           (if maxTemp e < fahrenheit L line
            then maxTemp e' = fahrenheit L line \<and> maxTempDate e' = ctime L (timestamp L line)
            else maxTemp e' = maxTemp e \<and> maxTempDate e' = maxTempDate e) \<and>
           (if fahrenheit L line < minTemp e
            then minTemp e' = fahrenheit L line \<and> minTempDate e' = ctime L (timestamp L line)
            else minTemp e' = minTemp e \<and> minTempDate e' = minTempDate e)"
proof -
  from process_line_existing [OF assms] assms(3)
  have "S' ! i = Some (folded L e (tokens line))"
    by simp
  then show ?thesis
    by (simp add: folded_fields)
qed

lemma temps_le_maxTemp:
  assumes "l \<in> set ls" and "state_code l = c"
  shows "fahrenheit L l \<le> maxTemp (summary L c ls)"
proof -
  from assms have "fahrenheit L l \<in> insert (- 1000) (temps_of L c ls)"
    by (auto simp: temps_of_def)
  then have "fahrenheit L l \<le> Max (insert (- 1000) (temps_of L c ls))"
    by (intro Max_ge) (simp_all add: finite_temps_of)
  then show ?thesis
    by (simp add: summary_maxTemp)
qed

lemma minTemp_le_temps:
  assumes "l \<in> set ls" and "state_code l = c"
  shows "minTemp (summary L c ls) \<le> fahrenheit L l"
proof -
  from assms have "fahrenheit L l \<in> insert 1000 (temps_of L c ls)"
    by (auto simp: temps_of_def)
  then have "Min (insert 1000 (temps_of L c ls)) \<le> fahrenheit L l"
    by (intro Min_le) (simp_all add: finite_temps_of)
  then show ?thesis
    by (simp add: summary_minTemp)
qed

lemma maxTemp_attained:
  assumes "- 1000 < maxTemp (summary L c ls)"
  shows "filter (\<lambda>l. state_code l = c \<and> fahrenheit L l = maxTemp (summary L c ls)) ls \<noteq> []"
proof -
  have "Max (insert (- 1000) (temps_of L c ls)) \<in> insert (- 1000) (temps_of L c ls)"
    by (intro Max_in) (simp_all add: finite_temps_of)
  with assms have "maxTemp (summary L c ls) \<in> temps_of L c ls"
    by (simp add: summary_maxTemp)
  then show ?thesis
    by (auto simp: temps_of_def filter_empty_conv)
qed

lemma minTemp_attained:
  assumes "minTemp (summary L c ls) < 1000"
  shows "filter (\<lambda>l. state_code l = c \<and> fahrenheit L l = minTemp (summary L c ls)) ls \<noteq> []"
proof -
  have "Min (insert 1000 (temps_of L c ls)) \<in> insert 1000 (temps_of L c ls)"
    by (intro Min_in) (simp_all add: finite_temps_of)
  with assms have "minTemp (summary L c ls) \<in> temps_of L c ls"
    by (simp add: summary_minTemp)
  then show ?thesis
    by (auto simp: temps_of_def filter_empty_conv)
qed

lemma summary_maxTempDate:
  "maxTempDate (summary L c ls) =
     (if - 1000 < maxTemp (summary L c ls)
      then ctime L (timestamp L
             (hd (filter (\<lambda>l. state_code l = c \<and> fahrenheit L l = maxTemp (summary L c ls)) ls)))
      else None)"
proof (induction ls rule: rev_induct)
  case Nil
  then show ?case
    by (simp add: summary_Nil base_values_def)
next
  case (snoc l ls)
  let ?m = "maxTemp (summary L c ls)"
  show ?case
  proof (cases "state_code l = c")
    case False
    with snoc show ?thesis
      by (simp add: summary_snoc)
  next
    case True
    show ?thesis
    proof (cases "?m < fahrenheit L l")
      case less: True
      have "filter (\<lambda>l'. state_code l' = c \<and> fahrenheit L l' = fahrenheit L l) ls = []"
      proof (rule ccontr)
        assume "filter (\<lambda>l'. state_code l' = c \<and> fahrenheit L l' = fahrenheit L l) ls \<noteq> []"
        then obtain l' where "l' \<in> set ls" "state_code l' = c" "fahrenheit L l' = fahrenheit L l"
          by (auto simp: filter_empty_conv)
        with temps_le_maxTemp [of l' ls c L] less show False
          by simp
      qed
      moreover have "- 1000 \<le> ?m"
        by (simp add: summary_maxTemp finite_temps_of)
      ultimately show ?thesis
        using True less by (simp add: summary_snoc folded_fields)
    next
      case notless: False
      show ?thesis
      proof (cases "- 1000 < ?m")
        case True
        from maxTemp_attained [OF this] snoc \<open>state_code l = c\<close> notless True show ?thesis
          by (simp add: summary_snoc folded_fields)
      next
        case False
        with snoc \<open>state_code l = c\<close> notless show ?thesis
          by (simp add: summary_snoc folded_fields)
      qed
    qed
  qed
qed

lemma summary_minTempDate:
  "minTempDate (summary L c ls) =
     (if minTemp (summary L c ls) < 1000
      then ctime L (timestamp L
             (hd (filter (\<lambda>l. state_code l = c \<and> fahrenheit L l = minTemp (summary L c ls)) ls)))
      else None)"
proof (induction ls rule: rev_induct)
  case Nil
  then show ?case
    by (simp add: summary_Nil base_values_def)
next
  case (snoc l ls)
  let ?m = "minTemp (summary L c ls)"
  show ?case
  proof (cases "state_code l = c")
    case False
    with snoc show ?thesis
      by (simp add: summary_snoc)
  next
    case True
    show ?thesis
    proof (cases "fahrenheit L l < ?m")
      case less: True
      have "filter (\<lambda>l'. state_code l' = c \<and> fahrenheit L l' = fahrenheit L l) ls = []"
      proof (rule ccontr)
        assume "filter (\<lambda>l'. state_code l' = c \<and> fahrenheit L l' = fahrenheit L l) ls \<noteq> []"
        then obtain l' where "l' \<in> set ls" "state_code l' = c" "fahrenheit L l' = fahrenheit L l"
          by (auto simp: filter_empty_conv)
        with minTemp_le_temps [of l' ls c L] less show False
          by simp
      qed
      moreover have "?m \<le> 1000"
        by (simp add: summary_minTemp finite_temps_of)
      ultimately show ?thesis
        using True less by (simp add: summary_snoc folded_fields)
    next
      case notless: False
      show ?thesis
      proof (cases "?m < 1000")
        case True
        from minTemp_attained [OF this] snoc \<open>state_code l = c\<close> notless True show ?thesis
          by (simp add: summary_snoc folded_fields)
      next
        case False
        with snoc \<open>state_code l = c\<close> notless show ?thesis
          by (simp add: summary_snoc folded_fields)
      qed
    qed
  qed
qed

lemma run_extremum_dates:
  assumes "main_loop L fopen i args (replicate NUM_STATES None) out = Inr (S, out')"
    and "Some e \<in> set S"
  shows "maxTempDate e =
           (if - 1000 < maxTemp e
            then ctime L (timestamp L
                   (hd (filter (\<lambda>l. state_code l = code e \<and> fahrenheit L l = maxTemp e)
                          (input_lines fopen args))))
            else None) \<and>
         minTempDate e =
           (if minTemp e < 1000
            then ctime L (timestamp L
                   (hd (filter (\<lambda>l. state_code l = code e \<and> fahrenheit L l = minTemp e)
                          (input_lines fopen args))))
            else None)"
proof -
  from run_entry(1) [OF assms] have e: "e = summary L (code e) (input_lines fopen args)" .
  show ?thesis
    by (subst (1 2 3 4 5 6) e) (simp only: summary_maxTempDate summary_minTempDate code_summary)
qed

lemma print_report_run:
  assumes "main_loop L fopen i args (replicate NUM_STATES None) out = Inr (S, out')"
  shows "print_report S NUM_STATES =
           Inr (map code (List.map_filter id S), map block_of (List.map_filter id S))"
proof -
  from run_summarises [OF assms] have "length S = NUM_STATES"
    by (simp add: summarises_def wf_states_def)
  then show ?thesis
    by (simp add: print_report_def Let_def)
qed

lemma map_filter_store: "List.map_filter id (store es) = es"
  by (induction es) (simp_all add: store_def List.map_filter_def)

subsection \<open>The sample runs\<close>

lemmas eval_defs =
  process_line_def strtok_def delim_def locate_def indexOfState_def indexOfState_from.simps
  new_climate_info_def strcpy_def deref_def bind_e_def base_values_def update_info_def Let_def
  count_flag_def first_is_1_def incr_int_def INT_MAX_def update_extrema_def
  sample_libc_def sample_atof_def sample_atol_def sample_ctime_def dec_unsigned_def
  is_digit_def digit_val_def NUM_STATES_def tdv_line_def

lemmas sample_defs =
  tx_info_def ca_info1_def ca_info12_def ca_info123_def nv_info_def ak_info_def
  st_tx_def st_tx_ca1_def st_tx_ca12_def st_tx_ca123_def st_nv_def st_nv_ak_def
  tx_line_def ca_line1_def ca_line2_def ca_line3_def hot_line_def missing_line_def

lemma run_tx: "process_line sample_libc (replicate NUM_STATES None) tx_line = Inr st_tx"
  by (simp add: eval_defs sample_defs)

lemma run_ca1: "process_line sample_libc st_tx ca_line1 = Inr st_tx_ca1"
  by (simp add: eval_defs sample_defs)

lemma run_ca2: "process_line sample_libc st_tx_ca1 ca_line2 = Inr st_tx_ca12"
  by (simp add: eval_defs sample_defs)

lemma run_ca3: "process_line sample_libc st_tx_ca12 ca_line3 = Inr st_tx_ca123"
  by (simp add: eval_defs sample_defs)

lemma run_hot: "process_line sample_libc (replicate NUM_STATES None) hot_line = Inr st_nv"
  by (simp add: eval_defs sample_defs)

lemma run_missing: "process_line sample_libc st_nv missing_line = Inr st_nv_ak"
  by (simp add: eval_defs sample_defs)


lemmas obs_defs =
  state_code_def timestamp_def humidity_def snow_flag_def cloud_cover_def lightning_flag_def
  kelvin_def fahrenheit_def

lemma tokens_samples:
  "tokens tx_line =
     [''TX'', ''2000'', ''geo'', ''40'', ''0'', ''30'', ''1'', ''100000'', ''300'' @ [CHR 0x0A]]"
  "tokens ca_line1 =
     [''CA'', ''0'', ''geo'', ''50'', ''0'', ''10'', ''0'', ''100000'', ''273.15'' @ [CHR 0x0A]]"
  "tokens ca_line2 =
     [''CA'', ''1000'', ''geo'', ''60'', ''1'', ''20'', ''1'', ''100000'', ''283.15'' @ [CHR 0x0A]]"
  "tokens ca_line3 =
     [''CA'', ''2000'', ''geo'', ''55'', ''0'', ''15'', ''0'', ''100000'', ''283.15'' @ [CHR 0x0A]]"
  "tokens hot_line =
     [''NV'', ''0'', ''geo'', ''5'', ''0'', ''0'', ''0'', ''100000'', ''1000'' @ [CHR 0x0A]]"
  "tokens missing_line =
     [''AK'', ''0'', ''geo'', ''80'', ''1'', ''90'', ''0'', ''100000'', ''-9999'' @ [CHR 0x0A]]"
  by code_simp+

lemma state_code_samples:
  "state_code tx_line = ''TX''" "state_code ca_line1 = ''CA''" "state_code ca_line2 = ''CA''"
  "state_code ca_line3 = ''CA''" "state_code hot_line = ''NV''" "state_code missing_line = ''AK''"
  by (simp_all add: state_code_def tokens_samples)

lemma fahrenheit_samples:
  "fahrenheit sample_libc tx_line = 80.33" "fahrenheit sample_libc ca_line1 = 32"
  "fahrenheit sample_libc ca_line2 = 50" "fahrenheit sample_libc ca_line3 = 50"
  "fahrenheit sample_libc hot_line = 1340.33" "fahrenheit sample_libc missing_line = - 18457.87"
  by (simp_all add: fahrenheit_def kelvin_def tokens_samples sample_libc_def sample_atof_def
      dec_unsigned_def is_digit_def digit_val_def)

lemma timestamp_samples:
  "timestamp sample_libc tx_line = 2" "timestamp sample_libc ca_line1 = 0"
  "timestamp sample_libc ca_line2 = 1" "timestamp sample_libc ca_line3 = 2"
  by (simp_all add: timestamp_def tokens_samples sample_libc_def sample_atol_def
      is_digit_def digit_val_def signed_divide_int_def)

lemma wf_samples:
  "wf_states st_tx" "wf_states st_tx_ca1" "wf_states st_tx_ca12" "wf_states st_tx_ca123"
  "wf_states st_nv" "wf_states st_nv_ak"
proof -
  show 1: "wf_states st_tx"
    by (rule wf_states_process_line [OF run_tx wf_states_init])
  show 2: "wf_states st_tx_ca1"
    by (rule wf_states_process_line [OF run_ca1 1])
  show 3: "wf_states st_tx_ca12"
    by (rule wf_states_process_line [OF run_ca2 2])
  show "wf_states st_tx_ca123"
    by (rule wf_states_process_line [OF run_ca3 3])
  show 4: "wf_states st_nv"
    by (rule wf_states_process_line [OF run_hot wf_states_init])
  show "wf_states st_nv_ak"
    by (rule wf_states_process_line [OF run_missing 4])
qed

lemma nth_samples:
  "st_tx ! 0 = Some tx_info" "st_tx_ca1 ! 0 = Some tx_info" "st_tx_ca1 ! 1 = Some ca_info1"
  "st_tx_ca12 ! 0 = Some tx_info" "st_tx_ca12 ! 1 = Some ca_info12"
  "st_tx_ca123 ! 0 = Some tx_info" "st_tx_ca123 ! 1 = Some ca_info123"
  "st_nv ! 0 = Some nv_info" "st_nv_ak ! 0 = Some nv_info" "st_nv_ak ! 1 = Some ak_info"
  by (simp_all add: st_tx_def st_tx_ca1_def st_tx_ca12_def st_tx_ca123_def st_nv_def st_nv_ak_def
      NUM_STATES_def)

lemma length_samples:
  "length st_tx = 50" "length st_tx_ca1 = 50" "length st_tx_ca12 = 50" "length st_tx_ca123 = 50"
  "length st_nv = 50" "length st_nv_ak = 50"
  by (simp_all add: st_tx_def st_tx_ca1_def st_tx_ca12_def st_tx_ca123_def st_nv_def st_nv_ak_def
      NUM_STATES_def)

lemma lines_of_samples:
  "lines_of (tx_line @ ca_line1 @ ca_line2) = [tx_line, ca_line1, ca_line2]"
  "lines_of ca_line3 = [ca_line3]"
  "lines_of (hot_line @ missing_line) = [hot_line, missing_line]"
  by code_simp+

lemma analyze_samples:
  "analyze_file sample_libc (replicate NUM_STATES None) (tx_line @ ca_line1 @ ca_line2) = Inr st_tx_ca12"
  "analyze_file sample_libc st_tx_ca12 ca_line3 = Inr st_tx_ca123"
  "analyze_file sample_libc (replicate NUM_STATES None) (hot_line @ missing_line) = Inr st_nv_ak"
  by (simp_all add: analyze_file_process_lines lines_of_samples bind_e_simps
      run_tx run_ca1 run_ca2 run_ca3 run_hot run_missing)

lemma run_sample:
  "main_loop sample_libc sample_fopen 1 sample_args (replicate NUM_STATES None) [] =
     Inr (st_tx_ca123,
          [OpeningFile ''tx_ca.tdv'', OpeningFile ''nofile.tdv'', ErrorFile 2, OpeningFile ''ca.tdv''])"
  by (simp add: sample_args_def sample_fopen_def analyze_samples bind_e_simps)

lemma run_extreme:
  "main_loop sample_libc sample_fopen 1 [''extreme.tdv''] (replicate NUM_STATES None) [] =
     Inr (st_nv_ak, [OpeningFile ''extreme.tdv''])"
  by (simp add: sample_fopen_def analyze_samples bind_e_simps)

lemma input_lines_samples:
  "input_lines sample_fopen sample_args = [tx_line, ca_line1, ca_line2, ca_line3]"
  "input_lines sample_fopen [''extreme.tdv''] = [hot_line, missing_line]"
  by (simp_all add: input_lines_def sample_args_def sample_fopen_def lines_of_samples
      List.map_filter_simps)

lemma mem_samples:
  "Some tx_info \<in> set st_tx_ca123" "Some ca_info123 \<in> set st_tx_ca123"
  "Some nv_info \<in> set st_nv_ak" "Some ak_info \<in> set st_nv_ak"
proof -
  have "st_tx_ca123 ! 0 \<in> set st_tx_ca123" "st_tx_ca123 ! 1 \<in> set st_tx_ca123"
    "st_nv_ak ! 0 \<in> set st_nv_ak" "st_nv_ak ! 1 \<in> set st_nv_ak"
    by (rule nth_mem, simp add: length_samples)+
  then show "Some tx_info \<in> set st_tx_ca123" "Some ca_info123 \<in> set st_tx_ca123"
    "Some nv_info \<in> set st_nv_ak" "Some ak_info \<in> set st_nv_ak"
    unfolding nth_samples .
qed

subsection \<open>The file of fifty-one states\<close>

lemma strtok_first:
  assumes "c \<noteq> []" and "CHR 0x09 \<notin> set c"
  shows "strtok (c @ CHR 0x09 # rest) delim = (Some c, rest)"
proof -
  from assms obtain x xs where c: "c = x # xs" and x: "x \<noteq> CHR 0x09"
    by (cases c) auto
  have d: "dropWhile (\<lambda>a. a \<in> set delim) (c @ CHR 0x09 # rest) = c @ CHR 0x09 # rest"
    using x by (simp add: c delim_def)
  have t: "takeWhile (\<lambda>a. a \<notin> set delim) (c @ CHR 0x09 # rest) = c"
    using assms(2) by (subst takeWhile_append2) (auto simp: delim_def)
  have r: "dropWhile (\<lambda>a. a \<notin> set delim) (c @ CHR 0x09 # rest) = CHR 0x09 # rest"
    using assms(2) by (subst dropWhile_append2) (auto simp: delim_def)
  show ?thesis
    unfolding strtok_def Let_def d t r using c by simp
qed

lemma update_info_record:
  "update_info sample_libc (base_values c) (record_rest @ [CHR 0x0A]) = Inr (info_of c)"
  by (simp add: eval_defs info_of_def record_rest_def)

lemma record_of_split: "record_of c = c @ CHR 0x09 # record_rest @ [CHR 0x0A]"
  by (simp add: record_of_def record_rest_def tdv_line_def)

lemma process_line_record_new:
  assumes "plain_code c" and "\<forall>e \<in> set es. code e \<noteq> c" and "length es < NUM_STATES"
  shows "process_line sample_libc (store es) (record_of c) = Inr (store (es @ [info_of c]))"
proof -
  from assms(1) have c: "c \<noteq> []" "CHR 0x09 \<notin> set c" "length c \<le> 2"
    by (simp_all add: plain_code_def)
  from assms(2,3) c(3) have loc:
    "locate (store es) (Some c) = Inr (length es, store (es @ [base_values c]))"
    by (simp add: locate_store)
  have n: "store (es @ [base_values c]) ! length es = Some (base_values c)"
    using nth_store(1) [of "length es" "es @ [base_values c]"] by simp
  have u: "(store (es @ [base_values c]))[length es := Some (info_of c)] = store (es @ [info_of c])"
    using store_snoc [OF assms(3), of "base_values c"] store_snoc [OF assms(3), of "info_of c"]
    by (metis list_update_overwrite)
  show ?thesis
    unfolding process_line_def record_of_split strtok_first [OF c(1,2)]
    by (simp add: loc n u bind_e_simps deref_Some update_info_record)
qed

lemma process_line_record_full:
  assumes "plain_code c" and "\<forall>e \<in> set es. code e \<noteq> c" and "length es = NUM_STATES"
  shows "process_line sample_libc (store es) (record_of c) = Inl OutOfBounds"
proof -
  from assms(1) have c: "c \<noteq> []" "CHR 0x09 \<notin> set c"
    by (simp_all add: plain_code_def)
  from assms(2,3) have "locate (store es) (Some c) = Inl OutOfBounds"
    by (simp add: locate_def indexOfState_def indexOfState_from_store bind_e_simps)
  then show ?thesis
    unfolding process_line_def record_of_split strtok_first [OF c]
    by (simp add: bind_e_simps)
qed

lemma process_lines_records:
  assumes "distinct cs" and "\<forall>c \<in> set cs. plain_code c \<and> (\<forall>e \<in> set es. code e \<noteq> c)"
    and "length es + length cs \<le> NUM_STATES"
  shows "process_lines sample_libc (store es) (map record_of cs @ rest) =
         process_lines sample_libc (store (es @ map info_of cs)) rest"
  using assms
proof (induction cs arbitrary: es)
  case Nil
  then show ?case by simp
next
  case (Cons c cs)
  from Cons.prems have p: "process_line sample_libc (store es) (record_of c) =
      Inr (store (es @ [info_of c]))"
    by (intro process_line_record_new) simp_all
  have "process_lines sample_libc (store (es @ [info_of c])) (map record_of cs @ rest) =
        process_lines sample_libc (store ((es @ [info_of c]) @ map info_of cs)) rest"
    using Cons.prems by (intro Cons.IH) (auto simp: info_of_def)
  with p show ?case
    by (simp add: bind_e_simps)
qed

lemma read_line_whole:
  assumes "CHR 0x0A \<notin> set l" and "length l < k"
  shows "read_line k (l @ CHR 0x0A # rest) = l @ [CHR 0x0A]"
  using assms
proof (induction l arbitrary: k)
  case Nil
  then show ?case by (cases k) simp_all
next
  case (Cons a l)
  then show ?case by (cases k) auto
qed

lemma lines_of_Nil: "lines_of [] = []"
  by (simp add: lines_of.simps [of "[]"] fgets_def)

lemma lines_of_line:
  assumes "CHR 0x0A \<notin> set l" and "length l < 99"
  shows "lines_of (l @ CHR 0x0A # rest) = (l @ [CHR 0x0A]) # lines_of rest"
  by (subst lines_of.simps) (simp add: fgets_def line_sz_def read_line_whole [OF assms])

lemma lines_of_record:
  assumes "plain_code c"
  shows "lines_of (record_of c @ rest) = record_of c # lines_of rest"
proof -
  let ?l = "c @ CHR 0x09 # record_rest"
  from assms have "CHR 0x0A \<notin> set ?l" "length ?l < 99"
    by (simp_all add: plain_code_def record_rest_def)
  from lines_of_line [OF this, of rest] show ?thesis
    by (simp add: record_of_split)
qed

lemma lines_of_records:
  assumes "\<forall>c \<in> set cs. plain_code c"
  shows "lines_of (concat (map record_of cs)) = map record_of cs"
  using assms by (induction cs) (simp_all add: lines_of_Nil lines_of_record)

lemma plain_fifty_codes: "\<forall>c \<in> set (fifty_codes @ [''DC'']). plain_code c"
  by (simp add: fifty_codes_def plain_code_def)

lemma distinct_fifty_codes: "distinct (fifty_codes @ [''DC''])"
  by (simp add: fifty_codes_def)

lemma length_fifty_codes: "length fifty_codes = NUM_STATES"
  by (simp add: fifty_codes_def NUM_STATES_def)

lemma st_tx_ca123_store: "st_tx_ca123 = store [tx_info, ca_info123]"
proof -
  have "store [tx_info, ca_info123] = (store [tx_info])[1 := Some ca_info123]"
    using store_snoc [of "[tx_info]" ca_info123] by (simp add: NUM_STATES_def)
  also have "store [tx_info] = (store [])[0 := Some tx_info]"
    using store_snoc [of "[]" tx_info] by (simp add: NUM_STATES_def)
  finally show ?thesis
    by (simp add: st_tx_ca123_def store_def)
qed


lemmas tie_defs =
  exact_libc_def exact_atof_def tie_line1_def tie_line2_def az_info1_def az_info12_def
  st_az1_def st_az12_def

lemma run_tie1: "process_line exact_libc (replicate NUM_STATES None) tie_line1 = Inr st_az1"
  by (simp add: eval_defs tie_defs)

lemma run_tie2: "process_line exact_libc st_az1 tie_line2 = Inr st_az12"
  by (simp add: eval_defs tie_defs)

lemma lines_of_tie: "lines_of (tie_line1 @ tie_line2) = [tie_line1, tie_line2]"
  by code_simp

lemma tokens_tie:
  "tokens tie_line1 =
     [''AZ'', ''0'', ''geo'', ''5'', ''0'', ''0'', ''0'', ''100000'', ''810.9277777777778'' @ [CHR 0x0A]]"
  "tokens tie_line2 =
     [''AZ'', ''1000'', ''geo'', ''7'', ''0'', ''0'', ''0'', ''100000'', ''810.9277777777778'' @ [CHR 0x0A]]"
  by code_simp+

lemma fahrenheit_tie:
  "fahrenheit exact_libc tie_line1 = 1000" "fahrenheit exact_libc tie_line2 = 1000"
  by (simp_all add: fahrenheit_def kelvin_def tokens_tie exact_libc_def exact_atof_def is_digit_def)

lemma timestamp_tie:
  "timestamp exact_libc tie_line1 = 0" "timestamp exact_libc tie_line2 = 1"
  by (simp_all add: timestamp_def tokens_tie exact_libc_def sample_atol_def
      is_digit_def digit_val_def signed_divide_int_def)

lemma state_code_tie:
  "state_code tie_line1 = ''AZ''" "state_code tie_line2 = ''AZ''"
  by (simp_all add: state_code_def tokens_tie)

lemma analyze_tie:
  "analyze_file exact_libc (replicate NUM_STATES None) (tie_line1 @ tie_line2) = Inr st_az12"
  by (simp add: analyze_file_process_lines lines_of_tie bind_e_simps run_tie1 run_tie2)

section \<open>The claims\<close>

subsection \<open>C1: the extrema of a state\<close>

text \<open>
  C1, as the code has it. After a run, the struct of a state holds as \<open>maxTemp\<close> the
  larger of -1000 and the maximum of the converted temperatures of the lines of that
  state, and as \<open>minTemp\<close> the smaller of 1000 and their minimum. So \<open>maxTemp\<close> is the
  true maximum, attained by a line, when some temperature is at least -1000, and
  \<open>minTemp\<close> the true minimum when some temperature is at most 1000.
\<close>

theorem extrema_up_to_sentinels:
  assumes "main_loop L fopen i args (replicate NUM_STATES None) out = Inr (S, out')"
    and "Some e \<in> set S"
  shows "temps_of L (code e) (input_lines fopen args) \<noteq> {} \<and>
         maxTemp e = max (- 1000) (Max (temps_of L (code e) (input_lines fopen args))) \<and>
         minTemp e = min 1000 (Min (temps_of L (code e) (input_lines fopen args))) \<and>
         (- 1000 \<le> Max (temps_of L (code e) (input_lines fopen args)) \<longrightarrow>
            maxTemp e = Max (temps_of L (code e) (input_lines fopen args)) \<and>
            maxTemp e \<in> temps_of L (code e) (input_lines fopen args)) \<and>
         (Min (temps_of L (code e) (input_lines fopen args)) \<le> 1000 \<longrightarrow>
            minTemp e = Min (temps_of L (code e) (input_lines fopen args)) \<and>
            minTemp e \<in> temps_of L (code e) (input_lines fopen args))"
proof -
  let ?T = "temps_of L (code e) (input_lines fopen args)"
  from run_entry [OF assms] have e: "e = summary L (code e) (input_lines fopen args)"
    and l: "\<exists>l \<in> set (input_lines fopen args). state_code l = code e"
    by blast+
  from l have ne: "?T \<noteq> {}"
    by (auto simp: temps_of_def)
  have fin: "finite ?T"
    by (rule finite_temps_of)
  have "maxTemp e = Max (insert (- 1000) ?T)"
    by (subst e) (rule summary_maxTemp)
  with fin ne have mx: "maxTemp e = max (- 1000) (Max ?T)"
    by simp
  have "minTemp e = Min (insert 1000 ?T)"
    by (subst e) (rule summary_minTemp)
  with fin ne have mn: "minTemp e = min 1000 (Min ?T)"
    by simp
  from fin ne have "Max ?T \<in> ?T" "Min ?T \<in> ?T"
    by simp_all
  with ne mx mn show ?thesis
    by (simp add: max_def min_def)
qed

theorem extrema_up_to_sentinels_witness:
  "main_loop sample_libc sample_fopen 1 sample_args (replicate NUM_STATES None) [] =
     Inr (st_tx_ca123,
          [OpeningFile ''tx_ca.tdv'', OpeningFile ''nofile.tdv'', ErrorFile 2, OpeningFile ''ca.tdv'']) \<and>
   Some ca_info123 \<in> set st_tx_ca123 \<and>
   temps_of sample_libc (code ca_info123) (input_lines sample_fopen sample_args) = {32, 50} \<and>
   maxTemp ca_info123 = 50 \<and> minTemp ca_info123 = 32"
proof -
  have t: "temps_of sample_libc (code ca_info123) (input_lines sample_fopen sample_args) = {32, 50}"
    by (auto simp: temps_of_def input_lines_samples state_code_samples
        fahrenheit_samples ca_info123_def)
  from extrema_up_to_sentinels [OF run_sample mem_samples(2)]
  have "maxTemp ca_info123 = 50 \<and> minTemp ca_info123 = 32"
    unfolding t by simp
  with run_sample mem_samples(2) t show ?thesis
    by (intro conjI) simp_all
qed

text \<open>
  C1 as stated fails: a state whose only temperature is 1340.33 F keeps \<open>minTemp\<close> = 1000,
  and a state whose only temperature is -18457.87 F keeps \<open>maxTemp\<close> = -1000.
\<close>

theorem sentinel_kept_as_extremum_counterexample:
  "main_loop sample_libc sample_fopen 1 [''extreme.tdv''] (replicate NUM_STATES None) [] =
     Inr (st_nv_ak, [OpeningFile ''extreme.tdv'']) \<and>
   input_lines sample_fopen [''extreme.tdv''] = [hot_line, missing_line] \<and>
   Some nv_info \<in> set st_nv_ak \<and>
   temps_of sample_libc (code nv_info) [hot_line, missing_line] = {1340.33} \<and>
   minTemp nv_info = 1000 \<and>
   minTemp nv_info \<noteq> Min (temps_of sample_libc (code nv_info) [hot_line, missing_line]) \<and>
   Some ak_info \<in> set st_nv_ak \<and>
   temps_of sample_libc (code ak_info) [hot_line, missing_line] = {- 18457.87} \<and>
   maxTemp ak_info = - 1000 \<and>
   maxTemp ak_info \<noteq> Max (temps_of sample_libc (code ak_info) [hot_line, missing_line])"
proof -
  have t1: "temps_of sample_libc (code nv_info) [hot_line, missing_line] = {1340.33}"
    by (simp add: temps_of_def state_code_samples fahrenheit_samples nv_info_def)
  have t2: "temps_of sample_libc (code ak_info) [hot_line, missing_line] = {- 18457.87}"
    by (simp add: temps_of_def state_code_samples fahrenheit_samples ak_info_def)
  have m1: "minTemp nv_info = 1000" and m2: "maxTemp ak_info = - 1000"
    by (simp_all add: nv_info_def ak_info_def)
  have n1: "minTemp nv_info \<noteq> Min (temps_of sample_libc (code nv_info) [hot_line, missing_line])"
    unfolding t1 m1 by simp
  have n2: "maxTemp ak_info \<noteq> Max (temps_of sample_libc (code ak_info) [hot_line, missing_line])"
    unfolding t2 m2 by simp
  from run_extreme input_lines_samples(2) mem_samples(3) t1 m1 n1 mem_samples(4) t2 m2 n2
  show ?thesis
    by (intro conjI)
qed

subsection \<open>C2: the base values of a new struct\<close>

text \<open>
  C2, as the code has it. The struct created for a state code that is not in the array
  starts from zero sums and counters, \<open>maxTemp\<close> = -1000 and \<open>minTemp\<close> = 1000, with
  both dates unset: after the creating line it holds that line's values, \<open>maxTemp\<close> is
  the line's temperature exactly when that is above -1000 and \<open>minTemp\<close> exactly when
  it is below 1000.
\<close>

theorem new_state_starts_from_base_values:
  assumes "process_line L S line = Inr S'" and "wf_states S"
    and "\<forall>e. Some e \<in> set S \<longrightarrow> code e \<noteq> state_code line"
  shows "\<exists>idx < length S. \<exists>e'. S ! idx = None \<and> S' ! idx = Some e' \<and>
           code e' = state_code line \<and> num_records e' = 1 \<and>
           totalHumidity e' = humidity L line \<and> totalCloudCover e' = cloud_cover L line \<and>
           totalTemp e' = fahrenheit L line \<and>
           snowCoverCount e' = (if snow_flag line then 1 else 0) \<and>
           lightningStrikeCount e' = (if lightning_flag line then 1 else 0) \<and>
           maxTemp e' = (if - 1000 < fahrenheit L line then fahrenheit L line else - 1000) \<and>
           maxTempDate e' =
             (if - 1000 < fahrenheit L line then ctime L (timestamp L line) else None) \<and>
           minTemp e' = (if fahrenheit L line < 1000 then fahrenheit L line else 1000) \<and>
           minTempDate e' =
             (if fahrenheit L line < 1000 then ctime L (timestamp L line) else None)"
proof -
  from process_line_new [OF assms] obtain idx where idx: "idx < length S" "S ! idx = None"
    and S': "S' = S[idx := Some (folded L (base_values (state_code line)) (tokens line))]"
    by blast
  let ?e' = "folded L (base_values (state_code line)) (tokens line)"
  from idx S' have "S' ! idx = Some ?e'"
    by simp
  with idx show ?thesis
    by (intro exI [of _ idx] conjI exI [of _ ?e'])
      (simp_all add: folded_fields code_folded base_values_def)
qed

theorem new_state_starts_from_base_values_witness:
  "process_line sample_libc (replicate NUM_STATES None) hot_line = Inr st_nv \<and>
   wf_states (replicate NUM_STATES None) \<and>
   fahrenheit sample_libc hot_line = 1340.33 \<and>
   (\<exists>idx < length (replicate NUM_STATES (None :: climate_info option)). \<exists>e'.
      st_nv ! idx = Some e' \<and> code e' = state_code hot_line \<and> num_records e' = 1 \<and>
      maxTemp e' = fahrenheit sample_libc hot_line \<and>
      minTemp e' = 1000 \<and> minTempDate e' = None)"
proof -
  have n: "\<forall>e. Some e \<in> set (replicate NUM_STATES None) \<longrightarrow> code e \<noteq> state_code hot_line"
    by simp
  have f: "fahrenheit sample_libc hot_line = 1340.33"
    by (simp add: fahrenheit_samples)
  from new_state_starts_from_base_values [OF run_hot wf_states_init n]
  have "\<exists>idx < length (replicate NUM_STATES (None :: climate_info option)). \<exists>e'.
      st_nv ! idx = Some e' \<and> code e' = state_code hot_line \<and> num_records e' = 1 \<and>
      maxTemp e' = fahrenheit sample_libc hot_line \<and>
      minTemp e' = 1000 \<and> minTempDate e' = None"
    unfolding f by (elim exE conjE, intro exI conjI) simp_all
  with run_hot wf_states_init f show ?thesis
    by (intro conjI)
qed

text \<open>
  C2 as stated fails: the sentinels are the finite numbers -1000 and 1000, and the first
  record of a state, at 1340.33 F, does not replace the 1000.
\<close>

theorem sentinels_are_finite_counterexample:
  "new_climate_info (Some ''NV'') = Inr (base_values ''NV'') \<and>
   maxTemp (base_values ''NV'') = - 1000 \<and> minTemp (base_values ''NV'') = 1000 \<and>
   process_line sample_libc (replicate NUM_STATES None) hot_line = Inr st_nv \<and>
   st_nv ! 0 = Some nv_info \<and>
   fahrenheit sample_libc hot_line = 1340.33 \<and>
   minTemp nv_info = 1000 \<and> minTempDate nv_info = None"
proof -
  have "new_climate_info (Some ''NV'') = Inr (base_values ''NV'')"
    by (simp add: new_climate_info_def strcpy_def deref_def bind_e_def)
  moreover have "maxTemp (base_values ''NV'') = - 1000" "minTemp (base_values ''NV'') = 1000"
    by (simp_all add: base_values_def)
  moreover have "minTemp nv_info = 1000" "minTempDate nv_info = None"
    by (simp_all add: nv_info_def)
  ultimately show ?thesis
    using run_hot nth_samples(8) fahrenheit_samples(5) by (intro conjI)
qed

subsection \<open>C3: ties keep the first extremum\<close>

text \<open>
  C3, as the code has it. For a line of a state that already has a struct, the maximum
  and its date change only when the line's temperature is strictly greater than the
  stored maximum, and the minimum and its date only when it is strictly less than the
  stored minimum: on a tie neither the extremum nor its date changes. So after a run a
  stored maximum above the initial -1000 has the date of the first line of the state with
  that temperature, and likewise a stored minimum below the initial 1000; a stored
  extremum equal to the initial value has no date, also when a line of the state has
  exactly that temperature.
\<close>

theorem ties_keep_first_extremum:
  "(process_line L S line = Inr S' \<longrightarrow> wf_states S \<longrightarrow> i < length S \<longrightarrow> S ! i = Some e \<longrightarrow>
    code e = state_code line \<longrightarrow>
      (\<exists>e'. S' ! i = Some e' \<and>
         (if maxTemp e < fahrenheit L line
          then maxTemp e' = fahrenheit L line \<and> maxTempDate e' = ctime L (timestamp L line)
          else maxTemp e' = maxTemp e \<and> maxTempDate e' = maxTempDate e) \<and>
         (if fahrenheit L line < minTemp e
          then minTemp e' = fahrenheit L line \<and> minTempDate e' = ctime L (timestamp L line)
          else minTemp e' = minTemp e \<and> minTempDate e' = minTempDate e))) \<and>
   (main_loop L fopen j args (replicate NUM_STATES None) out = Inr (R, out') \<longrightarrow> Some r \<in> set R \<longrightarrow>
      maxTempDate r =
        (if - 1000 < maxTemp r
         then ctime L (timestamp L
                (hd (filter (\<lambda>l. state_code l = code r \<and> fahrenheit L l = maxTemp r)
                       (input_lines fopen args))))
         else None) \<and>
      minTempDate r =
        (if minTemp r < 1000
         then ctime L (timestamp L
                (hd (filter (\<lambda>l. state_code l = code r \<and> fahrenheit L l = minTemp r)
                       (input_lines fopen args))))
         else None))"
proof (rule conjI)
  show "process_line L S line = Inr S' \<longrightarrow> wf_states S \<longrightarrow> i < length S \<longrightarrow> S ! i = Some e \<longrightarrow>
    code e = state_code line \<longrightarrow>
      (\<exists>e'. S' ! i = Some e' \<and>
         (if maxTemp e < fahrenheit L line
          then maxTemp e' = fahrenheit L line \<and> maxTempDate e' = ctime L (timestamp L line)
          else maxTemp e' = maxTemp e \<and> maxTempDate e' = maxTempDate e) \<and>
         (if fahrenheit L line < minTemp e
          then minTemp e' = fahrenheit L line \<and> minTempDate e' = ctime L (timestamp L line)
          else minTemp e' = minTemp e \<and> minTempDate e' = minTempDate e))"
    by (intro impI, rule process_line_extrema)
next
  show "main_loop L fopen j args (replicate NUM_STATES None) out = Inr (R, out') \<longrightarrow> Some r \<in> set R \<longrightarrow>
      maxTempDate r =
        (if - 1000 < maxTemp r
         then ctime L (timestamp L
                (hd (filter (\<lambda>l. state_code l = code r \<and> fahrenheit L l = maxTemp r)
                       (input_lines fopen args))))
         else None) \<and>
      minTempDate r =
        (if minTemp r < 1000
         then ctime L (timestamp L
                (hd (filter (\<lambda>l. state_code l = code r \<and> fahrenheit L l = minTemp r)
                       (input_lines fopen args))))
         else None)"
    by (intro impI, rule run_extremum_dates)
qed

theorem ties_keep_first_extremum_witness:
  "process_line sample_libc st_tx_ca12 ca_line3 = Inr st_tx_ca123 \<and>
   wf_states st_tx_ca12 \<and> 1 < length st_tx_ca12 \<and>
   st_tx_ca12 ! 1 = Some ca_info12 \<and> code ca_info12 = state_code ca_line3 \<and>
   fahrenheit sample_libc ca_line3 = maxTemp ca_info12 \<and>
   (\<exists>e'. st_tx_ca123 ! 1 = Some e' \<and>
      maxTemp e' = maxTemp ca_info12 \<and> maxTempDate e' = maxTempDate ca_info12 \<and>
      minTemp e' = minTemp ca_info12 \<and> minTempDate e' = minTempDate ca_info12) \<and>
   main_loop sample_libc sample_fopen 1 sample_args (replicate NUM_STATES None) [] =
     Inr (st_tx_ca123,
          [OpeningFile ''tx_ca.tdv'', OpeningFile ''nofile.tdv'', ErrorFile 2, OpeningFile ''ca.tdv'']) \<and>
   Some ca_info123 \<in> set st_tx_ca123 \<and>
   filter (\<lambda>l. state_code l = code ca_info123 \<and> fahrenheit sample_libc l = maxTemp ca_info123)
     (input_lines sample_fopen sample_args) = [ca_line2, ca_line3] \<and>
   maxTempDate ca_info123 = ctime sample_libc (timestamp sample_libc ca_line2)"
proof -
  have l: "1 < length st_tx_ca12"
    by (simp add: length_samples)
  have c: "code ca_info12 = state_code ca_line3"
    by (simp add: state_code_samples ca_info12_def)
  have f: "fahrenheit sample_libc ca_line3 = maxTemp ca_info12"
    by (simp add: fahrenheit_samples ca_info12_def)
  have m: "\<not> fahrenheit sample_libc ca_line3 < minTemp ca_info12"
    by (simp add: fahrenheit_samples ca_info12_def)
  note inst = ties_keep_first_extremum [of sample_libc st_tx_ca12 ca_line3 st_tx_ca123 1 ca_info12
      sample_fopen 1 sample_args "[]" st_tx_ca123 _ ca_info123]
  from inst [THEN conjunct1, rule_format, OF run_ca3 wf_samples(3) l nth_samples(5) c]
  have step: "\<exists>e'. st_tx_ca123 ! 1 = Some e' \<and>
      maxTemp e' = maxTemp ca_info12 \<and> maxTempDate e' = maxTempDate ca_info12 \<and>
      minTemp e' = minTemp ca_info12 \<and> minTempDate e' = minTempDate ca_info12"
    using f m by simp
  have fl: "filter (\<lambda>l. state_code l = code ca_info123 \<and> fahrenheit sample_libc l = maxTemp ca_info123)
     (input_lines sample_fopen sample_args) = [ca_line2, ca_line3]"
    by (simp add: input_lines_samples state_code_samples fahrenheit_samples ca_info123_def)
  from inst [THEN conjunct2, rule_format, OF run_sample mem_samples(2)]
  have run: "maxTempDate ca_info123 = ctime sample_libc (timestamp sample_libc ca_line2)"
    unfolding fl by (simp add: ca_info123_def)
  from run_ca3 wf_samples(3) l nth_samples(5) c f step run_sample mem_samples(2) fl run
  show ?thesis
    by (intro conjI)
qed

text \<open>
  C3 as stated fails: the date of an extremum is not always that of the first record
  that achieved the value, namely not when the value is the one the struct starts with.
  Two records of one state at exactly 1000 degrees Fahrenheit (810.9277777777778 K) are a
  tie for its minimum; for neither of them \<^verbatim>\<open>temp < minTemp\<close> holds, so after the
  file the minimum is 1000, the temperature of the record of time 0, and
  \<^verbatim>\<open>minTempDate\<close> has never been written, while \<^verbatim>\<open>ctime\<close> of that record is a date.
\<close>

theorem extremum_at_initial_value_counterexample:
  "analyze_file exact_libc (replicate NUM_STATES None) (tie_line1 @ tie_line2) = Inr st_az12 \<and>
   st_az12 ! 0 = Some az_info12 \<and>
   state_code tie_line1 = code az_info12 \<and> state_code tie_line2 = code az_info12 \<and>
   fahrenheit exact_libc tie_line1 = 1000 \<and> fahrenheit exact_libc tie_line2 = 1000 \<and>
   minTemp az_info12 = 1000 \<and>
   ctime exact_libc (timestamp exact_libc tie_line1) =
     Some (''Thu Jan  1 00:00:00 1970'' @ [CHR 0x0A]) \<and>
   minTempDate az_info12 = None"
proof -
  have "st_az12 ! 0 = Some az_info12"
    by (simp add: st_az12_def NUM_STATES_def)
  moreover have "minTemp az_info12 = 1000" "minTempDate az_info12 = None"
    "state_code tie_line1 = code az_info12" "state_code tie_line2 = code az_info12"
    by (simp_all add: az_info12_def state_code_tie)
  moreover have "ctime exact_libc (timestamp exact_libc tie_line1) =
      Some (''Thu Jan  1 00:00:00 1970'' @ [CHR 0x0A])"
    unfolding timestamp_tie by (simp add: exact_libc_def sample_ctime_def)
  ultimately show ?thesis
    using analyze_tie fahrenheit_tie by (intro conjI)
qed

subsection \<open>C4: the divisions of the report\<close>

text \<open>
  C4, as the code has it. \<^verbatim>\<open>print_report\<close> has no check of \<open>num_records\<close>: it never
  fails, prints a block for every struct of the array, and each average is the sum
  divided by \<open>num_records\<close> when that is not zero, and the non-finite result of the
  division by zero otherwise.
\<close>

theorem report_divides_without_check:
  assumes "length states = NUM_STATES"
  shows "\<exists>codes blocks. print_report states NUM_STATES = Inr (codes, blocks) \<and>
           length codes = length blocks \<and>
           (\<forall>info. Some info \<in> set states \<longrightarrow>
              block_of info \<in> set blocks \<and>
              rb_avgHumidity (block_of info) =
                (if num_records info = 0 then None
                 else Some (totalHumidity info / real (unat (num_records info)))) \<and>
              rb_avgTemp (block_of info) =
                (if num_records info = 0 then None
                 else Some (totalTemp info / real (unat (num_records info)))) \<and>
              rb_avgCloudCover (block_of info) =
                (if num_records info = 0 then None
                 else Some (totalCloudCover info / real (unat (num_records info)))))"
proof -
  let ?infos = "List.map_filter id (take NUM_STATES states)"
  from assms have "print_report states NUM_STATES = Inr (map code ?infos, map block_of ?infos)"
    by (simp add: print_report_def Let_def)
  moreover have "block_of info \<in> set (map block_of ?infos)" if "Some info \<in> set states" for info
    using that assms by (simp add: map_filter_id_Some)
  ultimately show ?thesis
    by (intro exI [of _ "map code ?infos"] exI [of _ "map block_of ?infos"])
      (simp add: block_of_averages)
qed

theorem report_divides_without_check_witness:
  "length st_tx_ca123 = NUM_STATES \<and>
   Some ca_info123 \<in> set st_tx_ca123 \<and>
   (\<exists>codes blocks. print_report st_tx_ca123 NUM_STATES = Inr (codes, blocks) \<and>
      block_of ca_info123 \<in> set blocks \<and>
      rb_avgHumidity (block_of ca_info123) = Some 55 \<and>
      rb_avgTemp (block_of ca_info123) = Some 44 \<and>
      rb_avgCloudCover (block_of ca_info123) = Some 15)"
proof -
  have l: "length st_tx_ca123 = NUM_STATES"
    by (simp add: length_samples NUM_STATES_def)
  have n: "num_records ca_info123 = 3" "totalHumidity ca_info123 = 165"
    "totalTemp ca_info123 = 132" "totalCloudCover ca_info123 = 45"
    by (simp_all add: ca_info123_def)
  from report_divides_without_check [OF l] obtain codes blocks where
    pr: "print_report st_tx_ca123 NUM_STATES = Inr (codes, blocks)" and
    blk: "\<forall>info. Some info \<in> set st_tx_ca123 \<longrightarrow>
              block_of info \<in> set blocks \<and>
              rb_avgHumidity (block_of info) =
                (if num_records info = 0 then None
                 else Some (totalHumidity info / real (unat (num_records info)))) \<and>
              rb_avgTemp (block_of info) =
                (if num_records info = 0 then None
                 else Some (totalTemp info / real (unat (num_records info)))) \<and>
              rb_avgCloudCover (block_of info) =
                (if num_records info = 0 then None
                 else Some (totalCloudCover info / real (unat (num_records info))))"
    by blast
  from blk mem_samples(2) have "block_of ca_info123 \<in> set blocks \<and>
      rb_avgHumidity (block_of ca_info123) =
        (if num_records ca_info123 = 0 then None
         else Some (totalHumidity ca_info123 / real (unat (num_records ca_info123)))) \<and>
      rb_avgTemp (block_of ca_info123) =
        (if num_records ca_info123 = 0 then None
         else Some (totalTemp ca_info123 / real (unat (num_records ca_info123)))) \<and>
      rb_avgCloudCover (block_of ca_info123) =
        (if num_records ca_info123 = 0 then None
         else Some (totalCloudCover ca_info123 / real (unat (num_records ca_info123))))"
    by blast
  then have "block_of ca_info123 \<in> set blocks \<and>
      rb_avgHumidity (block_of ca_info123) = Some 55 \<and>
      rb_avgTemp (block_of ca_info123) = Some 44 \<and>
      rb_avgCloudCover (block_of ca_info123) = Some 15"
    unfolding n by simp
  with pr have "\<exists>codes blocks. print_report st_tx_ca123 NUM_STATES = Inr (codes, blocks) \<and>
      block_of ca_info123 \<in> set blocks \<and>
      rb_avgHumidity (block_of ca_info123) = Some 55 \<and>
      rb_avgTemp (block_of ca_info123) = Some 44 \<and>
      rb_avgCloudCover (block_of ca_info123) = Some 15"
    by blast
  with l mem_samples(2) show ?thesis
    by (intro conjI)
qed

text \<open>
  C4 as stated fails: a struct with no record is reported, with three averages that are
  not numbers, and nothing is detected.
\<close>

theorem zero_records_reported_counterexample:
  "print_report ((replicate NUM_STATES None)[0 := Some (base_values ''CA'')]) NUM_STATES =
     Inr ([''CA''], [empty_block]) \<and>
   num_records (base_values ''CA'') = 0 \<and>
   rb_avgHumidity empty_block = None \<and> rb_avgTemp empty_block = None \<and>
   rb_avgCloudCover empty_block = None"
proof -
  have "print_report ((replicate NUM_STATES None)[0 := Some (base_values ''CA'')]) NUM_STATES =
     Inr ([''CA''], [empty_block])"
    by code_simp
  then show ?thesis
    by (simp add: base_values_def empty_block_def)
qed

subsection \<open>C5: fifty states and no more\<close>

text \<open>
  C5, as the code has it. The array has \<open>NUM_STATES\<close> = 50 places. For a state code of
  at most two characters that is in the array, or when fewer than 50 structs are in the
  array, the lookup and the insertion are right and stay inside the array: the code
  that is there is found at its index and the array is unchanged, the code that is not
  there gets a new struct with the base values in the first free place.
\<close>

theorem find_or_create_within_capacity:
  assumes "length es \<le> NUM_STATES" and "length c \<le> 2"
    and "(\<exists>e \<in> set es. code e = c) \<or> length es < NUM_STATES"
  shows "locate (store es) (Some c) =
           Inr (if \<exists>e \<in> set es. code e = c
                then (length (takeWhile (\<lambda>e. code e \<noteq> c) es), store es)
                else (length es, store (es @ [base_values c])))"
  using assms by (rule locate_store)

theorem find_or_create_within_capacity_witness:
  "length [tx_info, ca_info1] \<le> NUM_STATES \<and> length ''CA'' \<le> 2 \<and> length ''NV'' \<le> 2 \<and>
   length [tx_info, ca_info1] < NUM_STATES \<and>
   locate (store [tx_info, ca_info1]) (Some ''CA'') = Inr (1, store [tx_info, ca_info1]) \<and>
   locate (store [tx_info, ca_info1]) (Some ''NV'') =
     Inr (2, store [tx_info, ca_info1, base_values ''NV''])"
proof -
  have l: "length [tx_info, ca_info1] \<le> NUM_STATES" and lt: "length [tx_info, ca_info1] < NUM_STATES"
    by (simp_all add: NUM_STATES_def)
  have c: "length ''CA'' \<le> 2" and n: "length ''NV'' \<le> 2"
    by simp_all
  have ca: "\<exists>e \<in> set [tx_info, ca_info1]. code e = ''CA''"
    by (simp add: ca_info1_def)
  have nv: "\<not> (\<exists>e \<in> set [tx_info, ca_info1]. code e = ''NV'')"
    by (simp add: ca_info1_def tx_info_def)
  have t: "length (takeWhile (\<lambda>e. code e \<noteq> ''CA'') [tx_info, ca_info1]) = 1"
    by (simp add: ca_info1_def tx_info_def)
  from ca have "(\<exists>e \<in> set [tx_info, ca_info1]. code e = ''CA'') \<or> length [tx_info, ca_info1] < NUM_STATES"
    by (rule disjI1)
  from find_or_create_within_capacity [OF l c this]
  have 1: "locate (store [tx_info, ca_info1]) (Some ''CA'') = Inr (1, store [tx_info, ca_info1])"
    unfolding t using ca by simp
  from lt have "(\<exists>e \<in> set [tx_info, ca_info1]. code e = ''NV'') \<or> length [tx_info, ca_info1] < NUM_STATES"
    by (rule disjI2)
  from find_or_create_within_capacity [OF l n this]
  have 2: "locate (store [tx_info, ca_info1]) (Some ''NV'') =
     Inr (2, store [tx_info, ca_info1, base_values ''NV''])"
    using nv by simp
  from l c n lt 1 2 show ?thesis
    by (intro conjI)
qed

text \<open>
  C5 as stated fails: after the records of fifty distinct codes the array is full, and
  the lookup of the fifty-first reads \<^verbatim>\<open>states[50]\<close>, past its end.
\<close>

theorem fifty_first_state_counterexample:
  "length fifty_codes = 50 \<and> distinct (fifty_codes @ [''DC'']) \<and>
   lines_of fifty_one_states = map record_of (fifty_codes @ [''DC'']) \<and>
   analyze_file sample_libc (replicate NUM_STATES None) (concat (map record_of fifty_codes)) =
     Inr (store (map info_of fifty_codes)) \<and>
   indexOfState (store (map info_of fifty_codes)) (Some ''DC'') = Inl OutOfBounds \<and>
   analyze_file sample_libc (replicate NUM_STATES None) fifty_one_states = Inl OutOfBounds"
proof -
  have s0: "replicate NUM_STATES None = store []"
    by (simp add: store_def)
  have pl: "\<forall>c \<in> set fifty_codes. plain_code c" and dc: "plain_code ''DC''"
    using plain_fifty_codes by simp_all
  have di: "distinct fifty_codes" and nd: "''DC'' \<notin> set fifty_codes"
    using distinct_fifty_codes by simp_all
  have l: "lines_of fifty_one_states = map record_of (fifty_codes @ [''DC''])"
    unfolding fifty_one_states_def by (rule lines_of_records [OF plain_fifty_codes])
  have l50: "lines_of (concat (map record_of fifty_codes)) = map record_of fifty_codes"
    by (rule lines_of_records [OF pl])
  have run: "process_lines sample_libc (store []) (map record_of fifty_codes @ rest) =
             process_lines sample_libc (store ([] @ map info_of fifty_codes)) rest" for rest
    using di pl length_fifty_codes by (intro process_lines_records) simp_all
  have a50: "analyze_file sample_libc (replicate NUM_STATES None) (concat (map record_of fifty_codes)) =
     Inr (store (map info_of fifty_codes))"
    using run [of "[]"] by (simp add: analyze_file_process_lines l50 s0)
  have ne: "\<forall>e \<in> set (map info_of fifty_codes). code e \<noteq> ''DC''"
    using nd by (auto simp: info_of_def)
  have ix: "indexOfState (store (map info_of fifty_codes)) (Some ''DC'') = Inl OutOfBounds"
    using ne length_fifty_codes by (simp add: indexOfState_def indexOfState_from_store)
  have "process_line sample_libc (store (map info_of fifty_codes)) (record_of ''DC'') =
     Inl OutOfBounds"
    using dc ne length_fifty_codes by (intro process_line_record_full) simp_all
  with run [of "[record_of ''DC'']"]
  have a51: "analyze_file sample_libc (replicate NUM_STATES None) fifty_one_states = Inl OutOfBounds"
    by (simp add: analyze_file_process_lines l s0 bind_e_simps)
  have "length fifty_codes = 50"
    using length_fifty_codes by (simp add: NUM_STATES_def)
  with distinct_fifty_codes l a50 ix a51 show ?thesis
    by (intro conjI)
qed

subsection \<open>C6: Kelvin to Fahrenheit\<close>

text \<open>
  C6. The ninth token of a line is converted by \<open>F = K * 1.8 - 459.67\<close>, and this one
  value is what is added to \<open>totalTemp\<close> and compared with both extrema.
\<close>

theorem temperature_converted_once:
  assumes "process_line L S line = Inr S'" and "wf_states S"
  shows "\<exists>idx < length S. \<exists>e'. S' ! idx = Some e' \<and> code e' = state_code line \<and>
           (let e = (case S ! idx of Some e \<Rightarrow> e | None \<Rightarrow> base_values (state_code line));
                F = atof L (tokens line ! 8) * 1.8 - 459.67
            in totalTemp e' = totalTemp e + F \<and>
               maxTemp e' = (if maxTemp e < F then F else maxTemp e) \<and>
               minTemp e' = (if F < minTemp e then F else minTemp e))"
proof -
  from process_line_step [OF assms] obtain idx ci0 where
    idx: "idx < length S" and c: "code ci0 = state_code line" and
    ci0: "S ! idx = Some ci0 \<or>
            (S ! idx = None \<and> new_climate_info (Some (state_code line)) = Inr ci0)" and
    S': "S' = S[idx := Some (folded L ci0 (tokens line))]"
    by blast
  from ci0 have e: "(case S ! idx of Some e \<Rightarrow> e | None \<Rightarrow> base_values (state_code line)) = ci0"
    by (auto dest: new_climate_info_base)
  from idx S' have "S' ! idx = Some (folded L ci0 (tokens line))"
    by simp
  with idx c e show ?thesis
    by (intro exI [of _ idx] conjI exI [of _ "folded L ci0 (tokens line)"])
      (simp_all add: folded_fields code_folded fahrenheit_def kelvin_def Let_def)
qed

theorem temperature_converted_once_witness:
  "process_line sample_libc st_tx_ca1 ca_line2 = Inr st_tx_ca12 \<and>
   wf_states st_tx_ca1 \<and>
   tokens ca_line2 ! 8 = ''283.15'' @ [CHR 0x0A] \<and>
   atof sample_libc (tokens ca_line2 ! 8) = 283.15 \<and>
   atof sample_libc (tokens ca_line2 ! 8) * 1.8 - 459.67 = 50 \<and>
   (\<exists>idx < length st_tx_ca1. \<exists>e'. st_tx_ca12 ! idx = Some e' \<and> code e' = state_code ca_line2 \<and>
      (let e = (case st_tx_ca1 ! idx of Some e \<Rightarrow> e | None \<Rightarrow> base_values (state_code ca_line2));
           F = atof sample_libc (tokens ca_line2 ! 8) * 1.8 - 459.67
       in totalTemp e' = totalTemp e + F \<and>
          maxTemp e' = (if maxTemp e < F then F else maxTemp e) \<and>
          minTemp e' = (if F < minTemp e then F else minTemp e)))"
proof -
  have t: "tokens ca_line2 ! 8 = ''283.15'' @ [CHR 0x0A]"
    by (simp add: tokens_samples)
  have a: "atof sample_libc (tokens ca_line2 ! 8) = 283.15"
    unfolding t by (simp add: sample_libc_def sample_atof_def dec_unsigned_def is_digit_def digit_val_def)
  have f: "atof sample_libc (tokens ca_line2 ! 8) * 1.8 - 459.67 = 50"
    unfolding a by simp
  from temperature_converted_once [OF run_ca2 wf_samples(2)] run_ca2 wf_samples(2) t a f
  show ?thesis
    by (intro conjI)
qed

subsection \<open>C7: the snow and lightning counters\<close>

text \<open>
  C7, as the code has it. After a run, \<open>snowCoverCount\<close> of a state is the number of its
  lines whose fifth token begins with the character 1, and \<open>lightningStrikeCount\<close> the
  number whose seventh token begins with 1; a token with another first character adds
  nothing. The tokens are those of \<^verbatim>\<open>strtok\<close>: every line read has at least nine and
  none is empty, so an empty field is never the flag that is tested.
\<close>

theorem flag_counters_count_tokens:
  assumes "main_loop L fopen i args (replicate NUM_STATES None) out = Inr (S, out')"
    and "Some e \<in> set S"
  shows "snowCoverCount e =
           int (length (filter (\<lambda>l. state_code l = code e \<and> first_is_1 (tokens l ! 4))
                  (input_lines fopen args))) \<and>
         lightningStrikeCount e =
           int (length (filter (\<lambda>l. state_code l = code e \<and> first_is_1 (tokens l ! 6))
                  (input_lines fopen args))) \<and>
         (\<forall>l \<in> set (input_lines fopen args). 9 \<le> length (tokens l) \<and> [] \<notin> set (tokens l))"
proof -
  from run_entry(1) [OF assms] have e: "e = summary L (code e) (input_lines fopen args)" .
  have "snowCoverCount e =
      int (length (filter (\<lambda>l. state_code l = code e \<and> snow_flag l) (input_lines fopen args)))"
    by (subst e) (rule summary_snowCoverCount)
  moreover have "lightningStrikeCount e =
      int (length (filter (\<lambda>l. state_code l = code e \<and> lightning_flag l) (input_lines fopen args)))"
    by (subst e) (rule summary_lightningStrikeCount)
  moreover from run_summarises [OF assms(1)]
  have "\<forall>l \<in> set (input_lines fopen args). 9 \<le> length (tokens l)"
    unfolding summarises_def by blast
  ultimately show ?thesis
    by (simp add: snow_flag_def lightning_flag_def tokens_nonempty)
qed

theorem flag_counters_count_tokens_witness:
  "main_loop sample_libc sample_fopen 1 sample_args (replicate NUM_STATES None) [] =
     Inr (st_tx_ca123,
          [OpeningFile ''tx_ca.tdv'', OpeningFile ''nofile.tdv'', ErrorFile 2, OpeningFile ''ca.tdv'']) \<and>
   Some ca_info123 \<in> set st_tx_ca123 \<and>
   filter (\<lambda>l. state_code l = code ca_info123 \<and> first_is_1 (tokens l ! 4))
     (input_lines sample_fopen sample_args) = [ca_line2] \<and>
   snowCoverCount ca_info123 = 1 \<and>
   filter (\<lambda>l. state_code l = code ca_info123 \<and> first_is_1 (tokens l ! 6))
     (input_lines sample_fopen sample_args) = [ca_line2] \<and>
   lightningStrikeCount ca_info123 = 1"
proof -
  have c: "code ca_info123 = ''CA''"
    by (simp add: ca_info123_def)
  have f4: "filter (\<lambda>l. state_code l = code ca_info123 \<and> first_is_1 (tokens l ! 4))
     (input_lines sample_fopen sample_args) = [ca_line2]"
    by (simp add: c input_lines_samples state_code_samples tokens_samples first_is_1_def)
  have f6: "filter (\<lambda>l. state_code l = code ca_info123 \<and> first_is_1 (tokens l ! 6))
     (input_lines sample_fopen sample_args) = [ca_line2]"
    by (simp add: c input_lines_samples state_code_samples tokens_samples first_is_1_def)
  from flag_counters_count_tokens [OF run_sample mem_samples(2)]
  have "snowCoverCount ca_info123 = 1 \<and> lightningStrikeCount ca_info123 = 1"
    unfolding f4 f6 by simp
  with run_sample mem_samples(2) f4 f6 show ?thesis
    by (intro conjI) simp_all
qed

text \<open>
  C7 as stated fails on an empty flag field: with nine fields the ninth token is NULL and
  the run faults; with a tenth field the pressure is read as the lightning flag and counted.
\<close>

theorem empty_flag_field_counterexample:
  "process_line sample_libc (replicate NUM_STATES None) no_flag_line9 = Inl NullPointer \<and>
   process_line sample_libc (replicate NUM_STATES None) no_flag_line10 =
     Inr ((replicate NUM_STATES None)[0 := Some no_flag_info]) \<and>
   tokens no_flag_line10 ! 6 = ''100000'' \<and>
   lightningStrikeCount no_flag_info = 1"
proof -
  have "process_line sample_libc (replicate NUM_STATES None) no_flag_line9 = Inl NullPointer"
    by (simp add: eval_defs no_flag_line9_def)
  moreover have "process_line sample_libc (replicate NUM_STATES None) no_flag_line10 =
     Inr ((replicate NUM_STATES None)[0 := Some no_flag_info])"
    by (simp add: eval_defs no_flag_line10_def no_flag_info_def)
  moreover have "tokens no_flag_line10 ! 6 = ''100000''"
    by code_simp
  moreover have "lightningStrikeCount no_flag_info = 1"
    by (simp add: no_flag_info_def)
  ultimately show ?thesis
    by (intro conjI)
qed

subsection \<open>C8: a file that does not open\<close>

text \<open>
  C8. With at least one file argument, the run of \<^verbatim>\<open>main\<close> is the run on the files
  that open, in order: when reading them does not fault, \<^verbatim>\<open>main\<close> returns 0 after
  printing the notices and the report of the array they give. What the files that do
  not open add is their error notice: \<open>ErrorFile k\<close> is printed exactly for the
  arguments \<^verbatim>\<open>argv[k]\<close> that do not open.
\<close>

theorem unopenable_file_is_skipped:
  assumes "2 \<le> length argv"
  shows "main L fopen argv =
           (case main_loop L fopen 1 (filter (\<lambda>a. fopen a \<noteq> None) (tl argv))
                   (replicate NUM_STATES None) [] of
              Inl f \<Rightarrow> Inl f
            | Inr (S, out') \<Rightarrow>
                Inr (0, notices fopen 1 (tl argv) @
                        [Report (map code (List.map_filter id S))
                           (map block_of (List.map_filter id S))])) \<and>
         (\<forall>k. ErrorFile k \<in> set (notices fopen 1 (tl argv)) \<longleftrightarrow>
            1 \<le> k \<and> k < int (length argv) \<and> fopen (argv ! nat k) = None)"
proof -
  have e: "ErrorFile k \<in> set (notices fopen 1 (tl argv)) \<longleftrightarrow>
            1 \<le> k \<and> k < int (length argv) \<and> fopen (argv ! nat k) = None" for k
  proof -
    from assms obtain a args where argv: "argv = a # args"
      by (cases argv) auto
    have "(\<exists>n < length args. k = 1 + int n \<and> fopen (args ! n) = None) \<longleftrightarrow>
          1 \<le> k \<and> k < int (length (a # args)) \<and> fopen ((a # args) ! nat k) = None"
    proof
      assume "\<exists>n < length args. k = 1 + int n \<and> fopen (args ! n) = None"
      then obtain n where "n < length args" "k = 1 + int n" "fopen (args ! n) = None"
        by blast
      moreover from this have "nat k = Suc n" by simp
      ultimately show "1 \<le> k \<and> k < int (length (a # args)) \<and> fopen ((a # args) ! nat k) = None"
        by simp
    next
      assume r: "1 \<le> k \<and> k < int (length (a # args)) \<and> fopen ((a # args) ! nat k) = None"
      then obtain n where n: "nat k = Suc n"
        by (cases "nat k") auto
      with r have "n < length args" "k = 1 + int n" "fopen (args ! n) = None"
        by auto
      then show "\<exists>n < length args. k = 1 + int n \<and> fopen (args ! n) = None"
        by blast
    qed
    then show ?thesis
      by (simp add: ErrorFile_notices argv)
  qed
  let ?run = "main_loop L fopen 1 (filter (\<lambda>a. fopen a \<noteq> None) (tl argv))
                (replicate NUM_STATES None) []"
  have m: "main L fopen argv =
           (case ?run of
              Inl f \<Rightarrow> Inl f
            | Inr (S, out') \<Rightarrow>
                Inr (0, notices fopen 1 (tl argv) @
                        [Report (map code (List.map_filter id S))
                           (map block_of (List.map_filter id S))]))"
  proof (cases ?run)
    case (Inl f)
    with assms show ?thesis
      unfolding main_def
      by (subst main_loop_skips [of L fopen 1 "tl argv" _ "[]" 1 "[]"]) (simp add: bind_e_simps)
  next
    case (Inr p)
    obtain S out' where p: "p = (S, out')" by force
    from print_report_run [OF Inr [unfolded p]] Inr p assms show ?thesis
      unfolding main_def
      by (subst main_loop_skips [of L fopen 1 "tl argv" _ "[]" 1 "[]"]) (simp add: bind_e_simps)
  qed
  from m e show ?thesis
    by blast
qed

theorem unopenable_file_is_skipped_witness:
  "2 \<le> length (''climate'' # sample_args) \<and>
   sample_fopen ''nofile.tdv'' = None \<and>
   main_loop sample_libc sample_fopen 1 [''tx_ca.tdv'', ''ca.tdv''] (replicate NUM_STATES None) [] =
     Inr (st_tx_ca123, [OpeningFile ''tx_ca.tdv'', OpeningFile ''ca.tdv'']) \<and>
   main sample_libc sample_fopen (''climate'' # sample_args) =
     Inr (0, [OpeningFile ''tx_ca.tdv'', OpeningFile ''nofile.tdv'', ErrorFile 2,
              OpeningFile ''ca.tdv'',
              Report [''TX'', ''CA''] [block_of tx_info, block_of ca_info123]])"
proof -
  have a: "2 \<le> length (''climate'' # sample_args)"
    by (simp add: sample_args_def)
  have o: "sample_fopen ''nofile.tdv'' = None"
    by (simp add: sample_fopen_def)
  have f: "filter (\<lambda>a. sample_fopen a \<noteq> None) (tl (''climate'' # sample_args)) =
      [''tx_ca.tdv'', ''ca.tdv'']"
    by (simp add: sample_args_def sample_fopen_def)
  have r: "main_loop sample_libc sample_fopen 1 [''tx_ca.tdv'', ''ca.tdv'']
      (replicate NUM_STATES None) [] =
     Inr (st_tx_ca123, [OpeningFile ''tx_ca.tdv'', OpeningFile ''ca.tdv''])"
    by (simp add: sample_fopen_def analyze_samples bind_e_simps)
  have n: "notices sample_fopen 1 (tl (''climate'' # sample_args)) =
      [OpeningFile ''tx_ca.tdv'', OpeningFile ''nofile.tdv'', ErrorFile 2, OpeningFile ''ca.tdv'']"
    by (simp add: sample_args_def sample_fopen_def)
  have i: "List.map_filter id st_tx_ca123 = [tx_info, ca_info123]"
    by (simp add: st_tx_ca123_store map_filter_store)
  have c: "code tx_info = ''TX''" "code ca_info123 = ''CA''"
    by (simp_all add: tx_info_def ca_info123_def)
  from unopenable_file_is_skipped [OF a, of sample_libc sample_fopen]
  have "main sample_libc sample_fopen (''climate'' # sample_args) =
     Inr (0, [OpeningFile ''tx_ca.tdv'', OpeningFile ''nofile.tdv'', ErrorFile 2,
              OpeningFile ''ca.tdv'',
              Report [''TX'', ''CA''] [block_of tx_info, block_of ca_info123]])"
    unfolding f r n by (simp add: i c)
  with a o r show ?thesis
    by (intro conjI)
qed

subsection \<open>C9: a fold touches one struct only\<close>

text \<open>
  C9. Folding a line whose state code is X leaves the struct of every other state code
  already in the array as it was, field by field, at the same index; the array keeps
  its length.
\<close>

theorem fold_leaves_other_states:
  assumes "process_line L S line = Inr S'" and "length S = NUM_STATES"
    and "j < length S" and "S ! j = Some e" and "code e \<noteq> state_code line"
  shows "S' ! j = Some e \<and> length S' = length S"
proof -
  from assms(2) have "length S \<le> 50" by (simp add: NUM_STATES_def)
  from process_line_Inr [OF assms(1) this] obtain idx ci0 where
    c: "code ci0 = state_code line" and
    ci0: "S ! idx = Some ci0 \<or>
            (S ! idx = None \<and> new_climate_info (Some (state_code line)) = Inr ci0)" and
    S': "S' = S[idx := Some (folded L ci0 (tokens line))]"
    by blast
  from ci0 c assms(4,5) have "j \<noteq> idx" by auto
  with S' assms(4) show ?thesis by simp
qed

theorem fold_leaves_other_states_witness:
  "process_line sample_libc st_tx ca_line1 = Inr st_tx_ca1 \<and>
   length st_tx = NUM_STATES \<and> 0 < length st_tx \<and>
   st_tx ! 0 = Some tx_info \<and> code tx_info \<noteq> state_code ca_line1 \<and>
   st_tx_ca1 ! 0 = Some tx_info \<and> length st_tx_ca1 = length st_tx"
proof -
  have l: "length st_tx = NUM_STATES" and z: "0 < length st_tx"
    by (simp_all add: length_samples NUM_STATES_def)
  have c: "code tx_info \<noteq> state_code ca_line1"
    by (simp add: state_code_samples tx_info_def)
  from fold_leaves_other_states [OF run_ca1 l z nth_samples(1) c] run_ca1 l z nth_samples(1) c
  show ?thesis
    by (intro conjI) simp_all
qed

subsection \<open>C10: no struct without a record\<close>

text \<open>
  C10. After a run that read fewer than \<open>2 ^ 64\<close> lines (the range of \<^verbatim>\<open>num_records\<close>),
  every struct of the array has \<open>num_records\<close> equal to the number of lines of its state,
  which is at least 1; so no division of the report is a division by zero. Every state of
  the array during a run is the final state of the run on the input read so far.
\<close>

theorem record_count_never_zero:
  assumes "main_loop L fopen i args (replicate NUM_STATES None) out = Inr (S, out')"
    and "length (input_lines fopen args) < 2 ^ 64"
  shows "(\<forall>e. Some e \<in> set S \<longrightarrow>
            unat (num_records e) =
              length (filter (\<lambda>l. state_code l = code e) (input_lines fopen args)) \<and>
            1 \<le> unat (num_records e) \<and>
            (\<forall>x. fdiv x (num_records e) = Some (x / real (unat (num_records e))))) \<and>
         (\<exists>codes blocks. print_report S NUM_STATES = Inr (codes, blocks) \<and>
            (\<forall>b \<in> set blocks. rb_num_records b \<noteq> 0 \<and> rb_avgHumidity b \<noteq> None \<and>
               rb_avgTemp b \<noteq> None \<and> rb_avgCloudCover b \<noteq> None))"
proof -
  let ?ls = "input_lines fopen args"
  have ent: "unat (num_records e) = length (filter (\<lambda>l. state_code l = code e) ?ls) \<and>
             1 \<le> unat (num_records e) \<and> num_records e \<noteq> 0" if "Some e \<in> set S" for e
  proof -
    let ?n = "length (filter (\<lambda>l. state_code l = code e) ?ls)"
    from run_entry [OF assms(1) that] have e: "e = summary L (code e) ?ls"
      and l: "\<exists>l \<in> set ?ls. state_code l = code e"
      by blast+
    have "num_records e = of_nat ?n"
      by (subst e) (rule summary_num_records)
    moreover have "?n < 2 ^ 64"
      by (rule le_less_trans [OF length_filter_le assms(2)])
    ultimately have u: "unat (num_records e) = ?n"
      by (simp add: unat_of_nat)
    from l have "filter (\<lambda>l. state_code l = code e) ?ls \<noteq> []"
      by (auto simp: filter_empty_conv)
    then have "1 \<le> ?n"
      by (cases "filter (\<lambda>l. state_code l = code e) ?ls") simp_all
    with u show ?thesis
      by (auto simp: unat_eq_0 [symmetric])
  qed
  have "length S = NUM_STATES"
    using run_summarises [OF assms(1)] by (simp add: summarises_def wf_states_def)
  then obtain codes blocks where pr: "print_report S NUM_STATES = Inr (codes, blocks)"
    by (simp add: print_report_def Let_def)
  have "rb_num_records b \<noteq> 0 \<and> rb_avgHumidity b \<noteq> None \<and>
        rb_avgTemp b \<noteq> None \<and> rb_avgCloudCover b \<noteq> None" if "b \<in> set blocks" for b
  proof -
    from print_report_Inr [OF pr that] obtain info where "Some info \<in> set S" "b = block_of info"
      by blast
    with ent [of info] show ?thesis
      by (simp add: block_of_def fdiv_def)
  qed
  with pr have B: "\<exists>codes blocks. print_report S NUM_STATES = Inr (codes, blocks) \<and>
            (\<forall>b \<in> set blocks. rb_num_records b \<noteq> 0 \<and> rb_avgHumidity b \<noteq> None \<and>
               rb_avgTemp b \<noteq> None \<and> rb_avgCloudCover b \<noteq> None)"
    by blast
  have A: "\<forall>e. Some e \<in> set S \<longrightarrow>
            unat (num_records e) =
              length (filter (\<lambda>l. state_code l = code e) (input_lines fopen args)) \<and>
            1 \<le> unat (num_records e) \<and>
            (\<forall>x. fdiv x (num_records e) = Some (x / real (unat (num_records e))))"
  proof (intro allI impI)
    fix e assume "Some e \<in> set S"
    from ent [OF this] show "unat (num_records e) =
              length (filter (\<lambda>l. state_code l = code e) (input_lines fopen args)) \<and>
            1 \<le> unat (num_records e) \<and>
            (\<forall>x. fdiv x (num_records e) = Some (x / real (unat (num_records e))))"
      by (simp add: fdiv_def)
  qed
  from A B show ?thesis
    by (rule conjI)
qed

theorem record_count_never_zero_witness:
  "main_loop sample_libc sample_fopen 1 sample_args (replicate NUM_STATES None) [] =
     Inr (st_tx_ca123,
          [OpeningFile ''tx_ca.tdv'', OpeningFile ''nofile.tdv'', ErrorFile 2, OpeningFile ''ca.tdv'']) \<and>
   length (input_lines sample_fopen sample_args) < 2 ^ 64 \<and>
   Some ca_info123 \<in> set st_tx_ca123 \<and>
   unat (num_records ca_info123) = 3 \<and>
   fdiv (totalHumidity ca_info123) (num_records ca_info123) = Some 55"
proof -
  have l: "length (input_lines sample_fopen sample_args) < 2 ^ 64"
    by (simp add: input_lines_samples)
  have n: "length (filter (\<lambda>l. state_code l = code ca_info123) (input_lines sample_fopen sample_args)) = 3"
    by (simp add: input_lines_samples state_code_samples ca_info123_def)
  from record_count_never_zero [OF run_sample l] mem_samples(2)
  have "unat (num_records ca_info123) =
          length (filter (\<lambda>l. state_code l = code ca_info123) (input_lines sample_fopen sample_args)) \<and>
        fdiv (totalHumidity ca_info123) (num_records ca_info123) =
          Some (totalHumidity ca_info123 / real (unat (num_records ca_info123)))"
    by blast
  then have "unat (num_records ca_info123) = 3 \<and>
        fdiv (totalHumidity ca_info123) (num_records ca_info123) = Some 55"
    unfolding n by (simp add: ca_info123_def)
  with run_sample l mem_samples(2) show ?thesis
    by (intro conjI) simp_all
qed

end
